theory Spec2Isabelle
  imports Complex_Main
begin

section \<open>JavaScript numbers\<close>

text \<open>
  A JavaScript number is modelled as an exact real, one of the two infinities, or NaN.
  Arithmetic on finite values is exact: rounding to double precision, overflow of a finite
  result to an infinity and the sign of zero are not modelled (a finite value divided by
  zero yields the positive or negative infinity by the sign of the dividend alone).
  NaN propagates through every operation and makes every comparison false, as in
  IEEE 754.
\<close>

datatype num = NaN | PosInf | NegInf | Num real

instantiation num :: "{plus, minus, uminus, times, inverse, ord}"
begin

fun plus_num :: "num \<Rightarrow> num \<Rightarrow> num" where
  "plus_num (Num a) (Num b) = Num (a + b)"
| "plus_num NaN _ = NaN"
| "plus_num _ NaN = NaN"
| "plus_num PosInf NegInf = NaN"
| "plus_num NegInf PosInf = NaN"
| "plus_num PosInf _ = PosInf"
| "plus_num _ PosInf = PosInf"
| "plus_num NegInf _ = NegInf"
| "plus_num _ NegInf = NegInf"

fun uminus_num :: "num \<Rightarrow> num" where
  "uminus_num (Num a) = Num (- a)"
| "uminus_num NaN = NaN"
| "uminus_num PosInf = NegInf"
| "uminus_num NegInf = PosInf"

definition minus_num_def: "(a::num) - b = a + (- b)"

fun signed_inf :: "real \<Rightarrow> num" where
  "signed_inf s = (if s = 0 then NaN else if 0 < s then PosInf else NegInf)"

fun times_num :: "num \<Rightarrow> num \<Rightarrow> num" where
  "times_num (Num a) (Num b) = Num (a * b)"
| "times_num NaN _ = NaN"
| "times_num _ NaN = NaN"
| "times_num PosInf (Num b) = signed_inf b"
| "times_num NegInf (Num b) = signed_inf (- b)"
| "times_num (Num a) PosInf = signed_inf a"
| "times_num (Num a) NegInf = signed_inf (- a)"
| "times_num PosInf PosInf = PosInf"
| "times_num NegInf NegInf = PosInf"
| "times_num PosInf NegInf = NegInf"
| "times_num NegInf PosInf = NegInf"

fun divide_num :: "num \<Rightarrow> num \<Rightarrow> num" where
  "divide_num (Num a) (Num b) = (if b = 0 then signed_inf a else Num (a / b))"
| "divide_num NaN _ = NaN"
| "divide_num _ NaN = NaN"
| "divide_num (Num a) _ = Num 0"
| "divide_num PosInf (Num b) = (if 0 \<le> b then PosInf else NegInf)"
| "divide_num NegInf (Num b) = (if 0 \<le> b then NegInf else PosInf)"
| "divide_num _ _ = NaN"

definition inverse_num_def: "inverse (a::num) = divide (Num 1) a"

fun less_eq_num :: "num \<Rightarrow> num \<Rightarrow> bool" where
  "less_eq_num (Num a) (Num b) = (a \<le> b)"
| "less_eq_num NaN _ = False"
| "less_eq_num _ NaN = False"
| "less_eq_num NegInf _ = True"
| "less_eq_num _ PosInf = True"
| "less_eq_num _ _ = False"

fun less_num :: "num \<Rightarrow> num \<Rightarrow> bool" where
  "less_num (Num a) (Num b) = (a < b)"
| "less_num NaN _ = False"
| "less_num _ NaN = False"
| "less_num PosInf _ = False"
| "less_num _ NegInf = False"
| "less_num _ _ = True"

instance ..

end

text \<open>\<^verbatim>\<open>Math.abs\<close>, \<^verbatim>\<open>Math.floor\<close>, \<^verbatim>\<open>Math.min\<close> and \<^verbatim>\<open>Math.max\<close>.\<close>

fun mathAbs :: "num \<Rightarrow> num" where
  "mathAbs (Num a) = Num \<bar>a\<bar>"
| "mathAbs NaN = NaN"
| "mathAbs _ = PosInf"

fun mathFloor :: "num \<Rightarrow> num" where
  "mathFloor (Num a) = Num (of_int \<lfloor>a\<rfloor>)"
| "mathFloor n = n"

definition mathMin :: "num \<Rightarrow> num \<Rightarrow> num" where
  "mathMin a b = (if a = NaN \<or> b = NaN then NaN else if a \<le> b then a else b)"

definition mathMax :: "num \<Rightarrow> num \<Rightarrow> num" where
  "mathMax a b = (if a = NaN \<or> b = NaN then NaN else if a \<le> b then b else a)"

text \<open>\<^verbatim>\<open>Math.max(...xs)\<close>: the fold of \<^verbatim>\<open>Math.max\<close> from minus infinity.\<close>

definition mathMaxAll :: "num list \<Rightarrow> num" where
  "mathMaxAll xs = foldl mathMax NegInf xs"

text \<open>\<^verbatim>\<open>isNaN(v) || !isFinite(v)\<close> on a number.\<close>

fun notFinite :: "num \<Rightarrow> bool" where
  "notFinite (Num a) = False"
| "notFinite _ = True"

section \<open>The curve evaluator (class BezierEasing)\<close>

datatype error = TypeError | BezierError | CyclicReference

definition NEWTON_ITERATIONS :: nat where "NEWTON_ITERATIONS = 4"
definition NEWTON_MIN_SLOPE :: num where "NEWTON_MIN_SLOPE = Num 0.001"
definition SUBDIVISION_PRECISION :: num where "SUBDIVISION_PRECISION = Num 0.0000001"
definition SUBDIVISION_MAX_ITERATIONS :: nat where "SUBDIVISION_MAX_ITERATIONS = 10"
definition kSplineTableSize :: nat where "kSplineTableSize = 11"
definition kSampleStepSize :: num where
  "kSampleStepSize = Num 1.0 / (Num (real kSplineTableSize) - Num 1.0)"

text \<open>
  The instance fields. The sample table is filled on the first call of \<^verbatim>\<open>evaluate\<close>
  (\<^verbatim>\<open>precompute\<close>) from the control points alone, so it is modelled as the function
  \<open>calcSampleValues\<close> of the curve; its entries are exact here, where a
  \<^verbatim>\<open>Float32Array\<close> would round them to single precision.
\<close>

record BezierEasing =
  mX1 :: num
  mY1 :: num
  mX2 :: num
  mY2 :: num

text \<open>
  The constructor. An argument that is missing (\<^verbatim>\<open>undefined\<close>) is \<open>None\<close>; it fails
  the \<^verbatim>\<open>typeof\<close> test.
\<close>

definition newBezierEasing ::
  "num option \<Rightarrow> num option \<Rightarrow> num option \<Rightarrow> num option \<Rightarrow> error + BezierEasing" where
  "newBezierEasing x1 y1 x2 y2 =
     (case (x1, y1, x2, y2) of
        (Some a, Some b, Some c, Some d) \<Rightarrow>
          if notFinite a \<or> notFinite b \<or> notFinite c \<or> notFinite d then Inl BezierError
          else if a < Num 0 \<or> Num 1 < a \<or> c < Num 0 \<or> Num 1 < c then Inl BezierError
          else Inr \<lparr>mX1 = a, mY1 = b, mX2 = c, mY2 = d\<rparr>
      | _ \<Rightarrow> Inl BezierError)"

definition A :: "num \<Rightarrow> num \<Rightarrow> num" where
  "A aA1 aA2 = Num 1.0 - Num 3.0 * aA2 + Num 3.0 * aA1"

definition B :: "num \<Rightarrow> num \<Rightarrow> num" where
  "B aA1 aA2 = Num 3.0 * aA2 - Num 6.0 * aA1"

definition C :: "num \<Rightarrow> num" where
  "C aA1 = Num 3.0 * aA1"

definition calcBezier :: "num \<Rightarrow> num \<Rightarrow> num \<Rightarrow> num" where
  "calcBezier aT aA1 aA2 = ((A aA1 aA2 * aT + B aA1 aA2) * aT + C aA1) * aT"

definition getSlope :: "num \<Rightarrow> num \<Rightarrow> num \<Rightarrow> num" where
  "getSlope aT aA1 aA2 =
     Num 3.0 * A aA1 aA2 * aT * aT + Num 2.0 * B aA1 aA2 * aT + C aA1"

text \<open>The do-while loop of \<^verbatim>\<open>binarySubdivide\<close>; \<open>i\<close> is its counter.\<close>

function binarySubdivideLoop :: "BezierEasing \<Rightarrow> num \<Rightarrow> num \<Rightarrow> num \<Rightarrow> nat \<Rightarrow> num" where
  "binarySubdivideLoop this aX aA aB i =
     (let currentT = aA + (aB - aA) / Num 2.0;
          currentX = calcBezier currentT (mX1 this) (mX2 this) - aX;
          aB' = (if Num 0.0 < currentX then currentT else aB);
          aA' = (if Num 0.0 < currentX then aA else currentT)
      in if SUBDIVISION_PRECISION < mathAbs currentX \<and> i + 1 < SUBDIVISION_MAX_ITERATIONS
         then binarySubdivideLoop this aX aA' aB' (i + 1)
         else currentT)"
  by pat_completeness auto
termination
  by (relation "measure (\<lambda>(this, aX, aA, aB, i). SUBDIVISION_MAX_ITERATIONS - i)") auto

definition binarySubdivide :: "BezierEasing \<Rightarrow> num \<Rightarrow> num \<Rightarrow> num \<Rightarrow> num" where
  "binarySubdivide this aX aA aB = binarySubdivideLoop this aX aA aB 0"

text \<open>The for loop of \<^verbatim>\<open>newtonRaphsonIterate\<close>; the first argument counts the rounds left.\<close>

fun newtonRaphsonLoop :: "nat \<Rightarrow> BezierEasing \<Rightarrow> num \<Rightarrow> num \<Rightarrow> num" where
  "newtonRaphsonLoop 0 this aX aGuessT = aGuessT"
| "newtonRaphsonLoop (Suc k) this aX aGuessT =
     (let currentSlope = getSlope aGuessT (mX1 this) (mX2 this)
      in if currentSlope = Num 0.0 then aGuessT
         else let currentX = calcBezier aGuessT (mX1 this) (mX2 this) - aX
              in newtonRaphsonLoop k this aX (aGuessT - currentX / currentSlope))"

definition newtonRaphsonIterate :: "BezierEasing \<Rightarrow> num \<Rightarrow> num \<Rightarrow> num" where
  "newtonRaphsonIterate this aX aGuessT = newtonRaphsonLoop NEWTON_ITERATIONS this aX aGuessT"

definition calcSampleValues :: "BezierEasing \<Rightarrow> num list" where
  "calcSampleValues this =
     map (\<lambda>i. calcBezier (Num (real i) * kSampleStepSize) (mX1 this) (mX2 this))
       [0 ..< kSplineTableSize]"

text \<open>
  The scan of \<^verbatim>\<open>getTForX\<close> for the bracketing sample: it returns the loop's final
  \<^verbatim>\<open>currentSample\<close> and \<^verbatim>\<open>intervalStart\<close>. The first argument bounds the rounds (the
  table's size); the index stays inside the table, so the reads are in range.
\<close>

fun sampleScan :: "nat \<Rightarrow> num list \<Rightarrow> num \<Rightarrow> nat \<Rightarrow> num \<Rightarrow> nat \<times> num" where
  "sampleScan 0 samples aX currentSample intervalStart = (currentSample, intervalStart)"
| "sampleScan (Suc k) samples aX currentSample intervalStart =
     (if currentSample \<noteq> kSplineTableSize - 1 \<and> samples ! currentSample \<le> aX
      then sampleScan k samples aX (currentSample + 1) (intervalStart + kSampleStepSize)
      else (currentSample, intervalStart))"

definition getTForX :: "BezierEasing \<Rightarrow> num \<Rightarrow> num" where
  "getTForX this aX =
     (let samples = calcSampleValues this;
          (scanned, intervalStart) = sampleScan kSplineTableSize samples aX 1 (Num 0.0);
          currentSample = scanned - 1;
          dist = (aX - samples ! currentSample)
                   / (samples ! (currentSample + 1) - samples ! currentSample);
          guessForT = intervalStart + dist * kSampleStepSize;
          initialSlope = getSlope guessForT (mX1 this) (mX2 this)
      in if NEWTON_MIN_SLOPE \<le> initialSlope then newtonRaphsonIterate this aX guessForT
         else if initialSlope = Num 0.0 then guessForT
         else binarySubdivide this aX intervalStart (intervalStart + kSampleStepSize))"

definition evaluate :: "BezierEasing \<Rightarrow> num \<Rightarrow> num" where
  "evaluate this aX =
     (if mX1 this = mY1 this \<and> mX2 this = mY2 this then aX
      else if aX \<le> Num 0 then Num 0
      else if Num 1 \<le> aX then Num 1
      else calcBezier (getTForX this aX) (mY1 this) (mY2 this))"

section \<open>Strings and arrays of the host language\<close>

text \<open>
  Strings are lists of characters (bytes). Of the white space that \<^verbatim>\<open>trim\<close>,
  \<^verbatim>\<open>parseInt\<close> and \<^verbatim>\<open>parseFloat\<close> skip, the ASCII characters are modelled.
\<close>

definition isWhiteSpace :: "char \<Rightarrow> bool" where
  "isWhiteSpace c = (c \<in> {CHR '' '', CHR 0x09, CHR 0x0A, CHR 0x0B, CHR 0x0C, CHR 0x0D})"

definition trim :: "string \<Rightarrow> string" where
  "trim s = rev (dropWhile isWhiteSpace (rev (dropWhile isWhiteSpace s)))"

text \<open>\<^verbatim>\<open>s.split(sep)\<close> for a separator of one character.\<close>

fun splitOn :: "char \<Rightarrow> string \<Rightarrow> string list" where
  "splitOn sep [] = [[]]"
| "splitOn sep (c # cs) =
     (if c = sep then [] # splitOn sep cs
      else (case splitOn sep cs of w # ws \<Rightarrow> (c # w) # ws | [] \<Rightarrow> [[c]]))"

text \<open>\<^verbatim>\<open>s.split(/ +/)\<close>: a run of spaces is one separator.\<close>

function splitSpaces :: "string \<Rightarrow> string list" where
  "splitSpaces [] = [[]]"
| "splitSpaces (c # cs) =
     (if c = CHR '' '' then [] # splitSpaces (dropWhile (\<lambda>d. d = CHR '' '') cs)
      else (case splitSpaces cs of w # ws \<Rightarrow> (c # w) # ws | [] \<Rightarrow> [[c]]))"
  by pat_completeness auto
termination
  by (relation "measure length") (auto simp: length_dropWhile_le le_imp_less_Suc)

definition startsWith :: "string \<Rightarrow> string \<Rightarrow> bool" where
  "startsWith s p = (take (length p) s = p)"

fun joinWith :: "string \<Rightarrow> string list \<Rightarrow> string" where
  "joinWith sep [] = []"
| "joinWith sep [w] = w"
| "joinWith sep (w # ws) = w @ sep @ joinWith sep ws"

text \<open>\<^verbatim>\<open>xs[i]\<close>, which is \<^verbatim>\<open>undefined\<close> (\<open>None\<close>) out of range.\<close>

definition elemAt :: "'a list \<Rightarrow> nat \<Rightarrow> 'a option" where
  "elemAt xs i = (if i < length xs then Some (xs ! i) else None)"

text \<open>\<^verbatim>\<open>xs[i]\<close> for an index that is an integer: \<^verbatim>\<open>undefined\<close> when it is negative.\<close>

definition atInt :: "'a list \<Rightarrow> int \<Rightarrow> 'a option" where
  "atInt xs i = (if i < 0 then None else elemAt xs (nat i))"

text \<open>
  \<^verbatim>\<open>xs[n]\<close> for an index that is a number: \<^verbatim>\<open>undefined\<close> unless the number is a
  non-negative integer below the length.
\<close>

fun atNum :: "'a list \<Rightarrow> num \<Rightarrow> 'a option" where
  "atNum xs (Num r) = (if r = of_int \<lfloor>r\<rfloor> then atInt xs \<lfloor>r\<rfloor> else None)"
| "atNum xs _ = None"

text \<open>\<^verbatim>\<open>xs.indexOf(x)\<close>: the first position of \<open>x\<close>, or \<open>-1\<close>.\<close>

fun indexOf :: "'a list \<Rightarrow> 'a \<Rightarrow> int" where
  "indexOf [] x = -1"
| "indexOf (y # ys) x = (if y = x then 0 else (let i = indexOf ys x in if i < 0 then -1 else i + 1))"

text \<open>
  \<^verbatim>\<open>xs.slice(start, end)\<close>: a negative bound counts from the end, and both are clamped
  to the array.
\<close>

definition relIndex :: "nat \<Rightarrow> int \<Rightarrow> nat" where
  "relIndex len i = (if i < 0 then nat (max (int len + i) 0) else min (nat i) len)"

definition slice :: "'a list \<Rightarrow> int \<Rightarrow> int \<Rightarrow> 'a list" where
  "slice xs start stop =
     (let k = relIndex (length xs) start; final = relIndex (length xs) stop
      in take (final - k) (drop k xs))"

definition sliceFrom :: "'a list \<Rightarrow> int \<Rightarrow> 'a list" where
  "sliceFrom xs start = drop (relIndex (length xs) start) xs"

text \<open>\<^verbatim>\<open>xs.splice(start, deleteCount, ...items)\<close>, the array after the call.\<close>

definition splice :: "'a list \<Rightarrow> int \<Rightarrow> nat \<Rightarrow> 'a list \<Rightarrow> 'a list" where
  "splice xs start deleteCount items =
     (let k = relIndex (length xs) start
      in take k xs @ items @ drop (k + deleteCount) xs)"

subsection \<open>parseInt and parseFloat\<close>

definition isDigit :: "char \<Rightarrow> bool" where
  "isDigit c = (c \<in> set ''0123456789'')"

definition isHexDigit :: "char \<Rightarrow> bool" where
  "isHexDigit c = (c \<in> set ''0123456789abcdefABCDEF'')"

definition digitValue :: "char \<Rightarrow> nat" where
  "digitValue c =
     (if isDigit c then of_char c - 48
      else if c \<in> set ''abcdef'' then of_char c - 87
      else of_char c - 55)"

definition digitsValue :: "nat \<Rightarrow> string \<Rightarrow> nat" where
  "digitsValue radix ds = foldl (\<lambda>acc d. acc * radix + digitValue d) 0 ds"

text \<open>
  \<^verbatim>\<open>parseInt(s)\<close> with no radix: leading white space, a sign, a \<^verbatim>\<open>0x\<close> prefix for
  radix 16, then the longest run of digits; NaN when there is none. The argument
  \<^verbatim>\<open>undefined\<close> is read as the string "undefined" and gives NaN.
\<close>

definition parseIntString :: "string \<Rightarrow> num" where
  "parseIntString s =
     (let s1 = dropWhile isWhiteSpace s;
          negative = (take 1 s1 = ''-'');
          s2 = (if take 1 s1 = ''-'' \<or> take 1 s1 = ''+'' then drop 1 s1 else s1);
          hex = (take 2 s2 = ''0x'' \<or> take 2 s2 = ''0X'');
          s3 = (if hex then drop 2 s2 else s2);
          ds = takeWhile (if hex then isHexDigit else isDigit) s3;
          v = real (digitsValue (if hex then 16 else 10) ds)
      in if ds = [] then NaN else Num (if negative then - v else v))"

definition parseInt :: "string option \<Rightarrow> num" where
  "parseInt a = (case a of None \<Rightarrow> NaN | Some s \<Rightarrow> parseIntString s)"

text \<open>
  \<^verbatim>\<open>parseFloat(s)\<close>: leading white space, a sign, then \<^verbatim>\<open>Infinity\<close> or the longest
  decimal literal (digits, a fraction, an exponent); NaN when there is none.
\<close>

definition exponentPart :: "string \<Rightarrow> int" where
  "exponentPart s =
     (if take 1 s = ''e'' \<or> take 1 s = ''E'' then
        (let s1 = drop 1 s;
             negative = (take 1 s1 = ''-'');
             s2 = (if take 1 s1 = ''-'' \<or> take 1 s1 = ''+'' then drop 1 s1 else s1);
             ds = takeWhile isDigit s2
         in if ds = [] then 0
            else if negative then - int (digitsValue 10 ds) else int (digitsValue 10 ds))
      else 0)"

definition scale10 :: "real \<Rightarrow> int \<Rightarrow> real" where
  "scale10 v e = (if 0 \<le> e then v * 10 ^ nat e else v / 10 ^ nat (- e))"

definition parseFloatString :: "string \<Rightarrow> num" where
  "parseFloatString s =
     (let s1 = dropWhile isWhiteSpace s;
          negative = (take 1 s1 = ''-'');
          s2 = (if take 1 s1 = ''-'' \<or> take 1 s1 = ''+'' then drop 1 s1 else s1);
          ints = takeWhile isDigit s2;
          s3 = dropWhile isDigit s2;
          fracs = (if take 1 s3 = ''.'' then takeWhile isDigit (drop 1 s3) else []);
          s4 = (if take 1 s3 = ''.'' then dropWhile isDigit (drop 1 s3) else s3);
          mantissa = real (digitsValue 10 ints) + real (digitsValue 10 fracs) / 10 ^ length fracs;
          v = scale10 mantissa (exponentPart s4)
      in if take 8 s2 = ''Infinity'' then (if negative then NegInf else PosInf)
         else if ints = [] \<and> fracs = [] then NaN
         else Num (if negative then - v else v))"

definition parseFloat :: "string option \<Rightarrow> num" where
  "parseFloat a = (case a of None \<Rightarrow> NaN | Some s \<Rightarrow> parseFloatString s)"

section \<open>The data model\<close>

text \<open>
  An element handle is opaque to the compiler: only the geometry provider reads it.
  An easing curve is an array of numbers (four of them, or eight for a two-part opacity
  curve).
\<close>

type_synonym HTMLElement = nat
type_synonym EasingCurve = "num list"

record ScrollInstruction =
  element :: HTMLElement
  instruction :: string
  name :: string

text \<open>
  The interface AbsoluteData. Its field \<^verbatim>\<open>value\<close> is called \<open>rawValue\<close> here; an
  optional field that is not set is \<open>None\<close>.
\<close>

record AbsoluteData =
  rawValue :: "string list option"
  destination :: "num option"
  destinations :: "num list option"
  easingFunction :: "EasingCurve option"

record CompiledAbsoluteSegment =
  byTime :: num
  startPos :: num
  endPos :: num
  ease :: EasingCurve

text \<open>
  The directive keyword \<^verbatim>\<open>x\<close> or \<^verbatim>\<open>y\<close>, which selects \<^verbatim>\<open>absoluteKey\<close>,
  \<^verbatim>\<open>easingKey\<close> and \<^verbatim>\<open>distanceUnit\<close>.
\<close>

datatype axis = AxisX | AxisY

text \<open>
  The scroll listeners are closures; each constructor is one of the function expressions
  of the source, with the variables it captures. A closure that reads a field of
  \<^verbatim>\<open>resultHere\<close> when it is called holds the name under which that record is stored in
  the compilation map, and \<open>applyEvaluator\<close> reads the field from the map.
  \<^item> \<open>ConstantEvaluator\<close>: \<^verbatim>\<open>() => '0vw'\<close> and \<^verbatim>\<open>() => '1'\<close>;
  \<^item> \<open>HeightEasing\<close>: the result of \<^verbatim>\<open>getEasingFunction(easingCurve, entry)\<close>;
  \<^item> \<open>OpacitySingle\<close>, \<open>OpacityDouble\<close>: the closures of \<^verbatim>\<open>opacity-ease\<close> with four
    and with eight parameters;
  \<^item> \<open>FixedPosition\<close>: the closure of a single-valued \<^verbatim>\<open>x\<close> or \<^verbatim>\<open>y\<close>;
  \<^item> \<open>UniformTimeline\<close>: the closure over \<^verbatim>\<open>prePipe\<close> and \<^verbatim>\<open>easingCurveHere\<close>;
  \<^item> \<open>CustomTimeline\<close>: the closure over \<^verbatim>\<open>segments\<close> and \<^verbatim>\<open>initialPos\<close>.
\<close>

datatype evaluator =
    ConstantEvaluator num string
  | HeightEasing EasingCurve HTMLElement
  | OpacitySingle string
  | OpacityDouble string bool HTMLElement
  | FixedPosition string axis
  | UniformTimeline "string list" EasingCurve axis
  | CustomTimeline string "CompiledAbsoluteSegment list" num axis

record ScrollListeners =
  xEasingFunction :: evaluator
  yEasingFunction :: evaluator
  opacityEasingFunction :: evaluator

record CompiledScrollInstruction = ScrollInstruction +
  enterAt :: num
  duration :: num
  yEasingCurve :: EasingCurve
  opacityEasingCurve :: EasingCurve
  scrollListeners :: ScrollListeners
  leaveAt :: num
  absoluteY :: AbsoluteData
  absoluteX :: AbsoluteData
  isAbsolute :: bool

text \<open>
  The compilation map is an object used as a dictionary: an association list in insertion
  order. Element ids are taken not to be names of members of \<^verbatim>\<open>Object.prototype\<close>
  (such as \<^verbatim>\<open>toString\<close>), which a lookup in the object would find.
\<close>

type_synonym CompilationMap = "(string \<times> CompiledScrollInstruction) list"

record CompilationReport =
  compilationResult :: "CompiledScrollInstruction list"
  maxHeight :: num

definition absoluteOf :: "axis \<Rightarrow> CompiledScrollInstruction \<Rightarrow> AbsoluteData" where
  "absoluteOf ax r = (case ax of AxisX \<Rightarrow> absoluteX r | AxisY \<Rightarrow> absoluteY r)"

definition absoluteUpdate ::
  "axis \<Rightarrow> (AbsoluteData \<Rightarrow> AbsoluteData) \<Rightarrow> CompiledScrollInstruction \<Rightarrow> CompiledScrollInstruction" where
  "absoluteUpdate ax f r =
     (case ax of AxisX \<Rightarrow> r\<lparr>absoluteX := f (absoluteX r)\<rparr>
               | AxisY \<Rightarrow> r\<lparr>absoluteY := f (absoluteY r)\<rparr>)"

definition listenerOf :: "axis \<Rightarrow> CompiledScrollInstruction \<Rightarrow> evaluator" where
  "listenerOf ax r =
     (case ax of AxisX \<Rightarrow> xEasingFunction (scrollListeners r)
               | AxisY \<Rightarrow> yEasingFunction (scrollListeners r))"

definition listenerUpdate ::
  "axis \<Rightarrow> evaluator \<Rightarrow> CompiledScrollInstruction \<Rightarrow> CompiledScrollInstruction" where
  "listenerUpdate ax ev r =
     (case ax of
        AxisX \<Rightarrow> r\<lparr>scrollListeners := (scrollListeners r)\<lparr>xEasingFunction := ev\<rparr>\<rparr>
      | AxisY \<Rightarrow> r\<lparr>scrollListeners := (scrollListeners r)\<lparr>yEasingFunction := ev\<rparr>\<rparr>)"

definition distanceUnit :: "axis \<Rightarrow> string" where
  "distanceUnit ax = (case ax of AxisX \<Rightarrow> ''vw'' | AxisY \<Rightarrow> ''vh'')"

section \<open>Evaluation of the scroll listeners\<close>

text \<open>
  \<^verbatim>\<open>Scrollomat.computeBezier(t, ...curve)\<close>: the first four entries of the array are the
  control points, and a missing one is \<^verbatim>\<open>undefined\<close>.
\<close>

definition computeBezier :: "num \<Rightarrow> EasingCurve \<Rightarrow> error + num" where
  "computeBezier t curve =
     (if Num 1 \<le> t then Inr (Num 1)
      else if t \<le> Num 0 then Inr (Num 0)
      else (case newBezierEasing (elemAt curve 0) (elemAt curve 1) (elemAt curve 2) (elemAt curve 3) of
              Inl e \<Rightarrow> Inl e
            | Inr b \<Rightarrow> Inr (evaluate b t)))"

text \<open>
  The geometry provider: \<^verbatim>\<open>element.getBoundingClientRect().height\<close> and
  \<^verbatim>\<open>window.innerHeight\<close>.
\<close>

record geometry =
  elementHeight :: "HTMLElement \<Rightarrow> num"
  innerHeight :: num

text \<open>
  What a listener returns is a template string: a number followed by a unit. It is
  modelled as the pair of the two; the number is \<open>None\<close> where the source would print
  \<^verbatim>\<open>undefined\<close>.
\<close>

type_synonym rendered = "num option \<times> string"

definition scaled :: "error + num \<Rightarrow> (num \<Rightarrow> num) \<Rightarrow> string \<Rightarrow> error + rendered" where
  "scaled b f suffix = (case b of Inl e \<Rightarrow> Inl e | Inr v \<Rightarrow> Inr (Some (f v), suffix))"

text \<open>\<^verbatim>\<open>segments.findIndex(e => e.byTime <= absTime)\<close>.\<close>

fun findIndex :: "('a \<Rightarrow> bool) \<Rightarrow> 'a list \<Rightarrow> int" where
  "findIndex p [] = -1"
| "findIndex p (x # xs) =
     (if p x then 0 else (let i = findIndex p xs in if i < 0 then -1 else i + 1))"

definition uniformPosition :: "string list \<Rightarrow> EasingCurve \<Rightarrow> axis \<Rightarrow> num \<Rightarrow> error + rendered" where
  "uniformPosition prePipe easingCurveHere ax t =
     (let interval = t * Num (real (length prePipe) - 1);
          segment = mathMin (Num (real (length prePipe) - 2)) (mathFloor interval);
          excess = interval - segment
      in scaled (computeBezier excess easingCurveHere)
           (\<lambda>b. parseInt (atNum prePipe segment)
                  + b * (parseInt (atNum prePipe (segment + Num 1)) - parseInt (atNum prePipe segment)))
           (distanceUnit ax))"

definition customPosition ::
  "num \<Rightarrow> CompiledAbsoluteSegment list \<Rightarrow> num \<Rightarrow> axis \<Rightarrow> num \<Rightarrow> error + rendered" where
  "customPosition durationHere segments initialPos ax t =
     (let absTime = t * durationHere;
          lastCheckpointIndex = findIndex (\<lambda>e. byTime e \<le> absTime) segments;
          found = atInt segments lastCheckpointIndex;
          lastCheckpoint = (case found of
              Some c \<Rightarrow> c
            | None \<Rightarrow> \<lparr>byTime = Num 0, startPos = Num 0, endPos = initialPos,
                        ease = [Num 0, Num 0, Num 1, Num 1]\<rparr>);
          following = (case found of
              Some c \<Rightarrow> atInt segments (lastCheckpointIndex - 1)
            | None \<Rightarrow> elemAt (sliceFrom segments (-1)) 0);
          currentCheckpoint = (case following of Some c \<Rightarrow> c | None \<Rightarrow> lastCheckpoint);
          elapsedTime = absTime - byTime lastCheckpoint;
          currentDuration = mathMax (Num 1) (byTime currentCheckpoint - byTime lastCheckpoint)
      in scaled (computeBezier (elapsedTime / currentDuration) (ease currentCheckpoint))
           (\<lambda>b. startPos currentCheckpoint + b * (endPos currentCheckpoint - startPos currentCheckpoint))
           (distanceUnit ax))"

definition applyEvaluator ::
  "geometry \<Rightarrow> CompilationMap \<Rightarrow> evaluator \<Rightarrow> num \<Rightarrow> error + rendered" where
  "applyEvaluator g cmap ev t =
     (case ev of
        ConstantEvaluator v suffix \<Rightarrow> Inr (Some v, suffix)
      | HeightEasing easingCurve el \<Rightarrow>
          scaled (computeBezier t easingCurve)
            (\<lambda>b. Num 100 - b * (Num 100 + elementHeight g el / innerHeight g * Num 100)) ''vh''
      | OpacitySingle owner \<Rightarrow>
          (case map_of cmap owner of
             None \<Rightarrow> Inl TypeError
           | Some resultHere \<Rightarrow> scaled (computeBezier t (opacityEasingCurve resultHere)) (\<lambda>b. b) [])
      | OpacityDouble owner isAbs el \<Rightarrow>
          (case map_of cmap owner of
             None \<Rightarrow> Inl TypeError
           | Some resultHere \<Rightarrow>
               (let extraT = (if isAbs then Num 0 else elementHeight g el / innerHeight g)
                in if t < Num 0.5
                   then scaled (computeBezier (t * Num 2 - extraT * Num 1.5)
                                  (opacityEasingCurve resultHere)) (\<lambda>b. b) []
                   else scaled (computeBezier (t * Num 2 - Num 1 - extraT * Num 1.5)
                                  (sliceFrom (opacityEasingCurve resultHere) 4)) (\<lambda>b. Num 1 - b) []))
      | FixedPosition owner ax \<Rightarrow>
          (case map_of cmap owner of
             None \<Rightarrow> Inl TypeError
           | Some resultHere \<Rightarrow> Inr (destination (absoluteOf ax resultHere), distanceUnit ax))
      | UniformTimeline prePipe easingCurveHere ax \<Rightarrow> uniformPosition prePipe easingCurveHere ax t
      | CustomTimeline owner segments initialPos ax \<Rightarrow>
          (case map_of cmap owner of
             None \<Rightarrow> Inl TypeError
           | Some resultHere \<Rightarrow> customPosition (duration resultHere) segments initialPos ax t))"

section \<open>The segmenter of the fully custom form\<close>

text \<open>
  The regular expression \<^verbatim>\<open>argSegmenterRegexp\<close>, matched by hand. A match is the list
  of its groups 0 to 13, a group that took no part being \<open>None\<close>. The alternatives of
  the expression start with different characters, and every repetition but one is followed
  by a character outside its class, so that its longest run is the only candidate. The
  exception is the identifier of the start position (group 7): its class holds the
  hyphen that may follow it, so the matcher tries its prefixes from the longest down, as
  the backtracking engine does.
\<close>

definition isIdentChar :: "char \<Rightarrow> bool" where
  "isIdentChar c =
     (c \<in> set ''abcdefghijklmnopqrstuvwxyzABCDEFGHIJKLMNOPQRSTUVWXYZ0123456789-.'')"

definition isNumberChar :: "char \<Rightarrow> bool" where
  "isNumberChar c = (c \<in> set ''0123456789.'')"

definition matchLiteral :: "string \<Rightarrow> string \<Rightarrow> string option" where
  "matchLiteral lit s = (if startsWith s lit then Some (drop (length lit) s) else None)"

text \<open>A class repeated once or more, as \<^verbatim>\<open>[0-9.]+\<close>.\<close>

definition matchWhile :: "(char \<Rightarrow> bool) \<Rightarrow> string \<Rightarrow> (string \<times> string) option" where
  "matchWhile p s = (if takeWhile p s = [] then None else Some (takeWhile p s, dropWhile p s))"

text \<open>\<^verbatim>\<open>-?\d+\<close>\<close>

definition matchInteger :: "string \<Rightarrow> (string \<times> string) option" where
  "matchInteger s =
     (let sign = (if take 1 s = ''-'' then ''-'' else [])
      in (case matchWhile isDigit (drop (length sign) s) of
            None \<Rightarrow> None
          | Some (ds, rest) \<Rightarrow> Some (sign @ ds, rest)))"

text \<open>One of the keywords, a space and an identifier, as \<^verbatim>\<open>(like) ([a-zA-Z0-9-.]+)\<close>.\<close>

fun matchReference :: "string list \<Rightarrow> string \<Rightarrow> (string \<times> string \<times> string) option" where
  "matchReference [] s = None"
| "matchReference (k # ks) s =
     (case matchLiteral (k @ '' '') s of
        None \<Rightarrow> matchReference ks s
      | Some rest \<Rightarrow>
          (case matchWhile isIdentChar rest of
             None \<Rightarrow> matchReference ks s
           | Some (ident, rest') \<Rightarrow> Some (k, ident, rest')))"

text \<open>Groups 1 to 4: \<^verbatim>\<open>(?:(\+)?(-?\d+)|(like|with-exit|with-entry) ([a-zA-Z0-9-.]+))\<close>\<close>

definition matchTime :: "string \<Rightarrow> (string option list \<times> string) option" where
  "matchTime s =
     (let plus = (take 1 s = ''+'')
      in (case matchInteger (if plus then drop 1 s else s) of
            Some (n, rest) \<Rightarrow> Some ([if plus then Some ''+'' else None, Some n, None, None], rest)
          | None \<Rightarrow>
              (case matchReference [''like'', ''with-exit'', ''with-entry''] s of
                 Some (k, ident, rest) \<Rightarrow> Some ([None, None, Some k, Some ident], rest)
               | None \<Rightarrow> None)))"

text \<open>Groups 8 to 10: \<^verbatim>\<open>(?:(-?\d+)|(like) ([a-zA-Z0-9-.]+))\<close>\<close>

definition matchPosition :: "string \<Rightarrow> (string option list \<times> string) option" where
  "matchPosition s =
     (case matchInteger s of
        Some (n, rest) \<Rightarrow> Some ([Some n, None, None], rest)
      | None \<Rightarrow>
          (case matchReference [''like''] s of
             Some (k, ident, rest) \<Rightarrow> Some ([None, Some k, Some ident], rest)
           | None \<Rightarrow> None))"

text \<open>\<^verbatim>\<open>[0-9.]+ [0-9.]+ [0-9.]+ [0-9.]+\<close>\<close>

definition matchFourNumbers :: "string \<Rightarrow> (string \<times> string) option" where
  "matchFourNumbers s =
     (case matchWhile isNumberChar s of None \<Rightarrow> None | Some (n1, s1) \<Rightarrow>
      (case matchLiteral '' '' s1 of None \<Rightarrow> None | Some s2 \<Rightarrow>
      (case matchWhile isNumberChar s2 of None \<Rightarrow> None | Some (n2, s3) \<Rightarrow>
      (case matchLiteral '' '' s3 of None \<Rightarrow> None | Some s4 \<Rightarrow>
      (case matchWhile isNumberChar s4 of None \<Rightarrow> None | Some (n3, s5) \<Rightarrow>
      (case matchLiteral '' '' s5 of None \<Rightarrow> None | Some s6 \<Rightarrow>
      (case matchWhile isNumberChar s6 of None \<Rightarrow> None | Some (n4, s7) \<Rightarrow>
         Some (n1 @ '' '' @ n2 @ '' '' @ n3 @ '' '' @ n4, s7))))))))"

text \<open>Groups 11 to 13: \<^verbatim>\<open>(?:([0-9.]+ [0-9.]+ [0-9.]+ [0-9.]+)|(like) ([a-zA-Z0-9-.]+))\<close>\<close>

definition matchEase :: "string \<Rightarrow> (string option list \<times> string) option" where
  "matchEase s =
     (case matchFourNumbers s of
        Some (n, rest) \<Rightarrow> Some ([Some n, None, None], rest)
      | None \<Rightarrow>
          (case matchReference [''like''] s of
             Some (k, ident, rest) \<Rightarrow> Some ([None, Some k, Some ident], rest)
           | None \<Rightarrow> None))"

text \<open>
  The expression from the optional space before the hyphen to its end: groups 8 to 13
  and the text left.
\<close>

definition matchTail :: "string \<Rightarrow> (string option list \<times> string) option" where
  "matchTail s =
     (case matchLiteral ''- '' (if take 1 s = '' '' then drop 1 s else s) of
        None \<Rightarrow> None | Some s5 \<Rightarrow>
      (case matchPosition s5 of None \<Rightarrow> None | Some (g8to10, s6) \<Rightarrow>
      (case matchLiteral '' | '' s6 of None \<Rightarrow> None | Some s7 \<Rightarrow>
      (case matchEase s7 of None \<Rightarrow> None | Some (g11to13, s8) \<Rightarrow>
      (case matchLiteral '' |'' s8 of None \<Rightarrow> None | Some s9 \<Rightarrow>
         Some (g8to10 @ g11to13, s9))))))"

text \<open>The identifier of group 7: its first \<open>k\<close> characters, for the largest \<open>k\<close> that lets
  the rest of the expression match.\<close>

fun identBacktrack ::
  "string \<Rightarrow> nat \<Rightarrow> (string \<times> string option list \<times> string) option" where
  "identBacktrack s 0 = None"
| "identBacktrack s (Suc k) =
     (case matchTail (drop (Suc k) s) of
        Some (gs, rest) \<Rightarrow> Some (take (Suc k) s, gs, rest)
      | None \<Rightarrow> identBacktrack s k)"

text \<open>
  The optional start position and all that follows it: groups 5 to 13 and the text left.
  The alternatives in the engine's order: a number, a reference, nothing.
\<close>

definition matchStart :: "string \<Rightarrow> (string option list \<times> string) option" where
  "matchStart s =
     (let byNumber = (case matchInteger s of
                        None \<Rightarrow> None
                      | Some (n, rest) \<Rightarrow>
                          (case matchTail rest of
                             None \<Rightarrow> None
                           | Some (gs, r) \<Rightarrow> Some ([Some n, None, None] @ gs, r)));
          byReference = (case matchLiteral ''like '' s of
                           None \<Rightarrow> None
                         | Some rest \<Rightarrow>
                             (case identBacktrack rest (length (takeWhile isIdentChar rest)) of
                                None \<Rightarrow> None
                              | Some (ident, gs, r) \<Rightarrow> Some ([None, Some ''like'', Some ident] @ gs, r)));
          bare = (case matchTail s of
                    None \<Rightarrow> None
                  | Some (gs, r) \<Rightarrow> Some ([None, None, None] @ gs, r))
      in if byNumber \<noteq> None then byNumber
         else if byReference \<noteq> None then byReference
         else bare)"

text \<open>
  One match of the whole expression at the start of \<open>s\<close>: the groups and the number of
  characters matched.
\<close>

definition matchClause :: "string \<Rightarrow> (string option list \<times> nat) option" where
  "matchClause s =
     (case matchTime s of None \<Rightarrow> None | Some (g1to4, s1) \<Rightarrow>
      (case matchLiteral '': '' s1 of None \<Rightarrow> None | Some s2 \<Rightarrow>
      (case matchStart s2 of None \<Rightarrow> None | Some (g5to13, s9) \<Rightarrow>
         Some (Some (take (length s - length s9) s) # g1to4 @ g5to13,
               length s - length s9))))"

text \<open>
  All matches from left to right, as \<^verbatim>\<open>replace\<close> and \<^verbatim>\<open>matchAll\<close> find them with the
  global flag: the text that no match covers, and the matches. The first argument counts
  the characters of the current match that are still to be skipped.
\<close>

fun scanClauses :: "nat \<Rightarrow> string \<Rightarrow> string \<times> string option list list" where
  "scanClauses k [] = ([], [])"
| "scanClauses (Suc k) (c # cs) = scanClauses k cs"
| "scanClauses 0 (c # cs) =
     (case matchClause (c # cs) of
        Some (groups, len) \<Rightarrow>
          (let (residual, found) = scanClauses (len - 1) cs in (residual, groups # found))
      | None \<Rightarrow> (let (residual, found) = scanClauses 0 cs in (c # residual, found)))"

text \<open>\<^verbatim>\<open>segment[i]\<close> of a match; an empty string is as falsy as \<^verbatim>\<open>undefined\<close>.\<close>

definition grp :: "string option list \<Rightarrow> nat \<Rightarrow> string option" where
  "grp segment i = (case elemAt segment i of Some g \<Rightarrow> g | None \<Rightarrow> None)"

definition truthy :: "string option \<Rightarrow> bool" where
  "truthy g = (g \<noteq> None \<and> g \<noteq> Some [])"

section \<open>The compiler's state\<close>

text \<open>
  \<^verbatim>\<open>compileScrollData\<close> keeps two variables that its inner function reads and writes:
  the compilation map and the entries still to process. A computation takes the state and
  ends in one of three ways: it throws (\<open>Inl\<close>), it returns a value and the new state
  (\<open>Inr\<close>), or it does not return (\<open>None\<close>).
\<close>

record compileState =
  compilationMap :: CompilationMap
  entriesToProcess :: "ScrollInstruction list"

type_synonym 'a comp = "compileState \<Rightarrow> (error + 'a \<times> compileState) option"

definition ret :: "'a \<Rightarrow> 'a comp" where
  "ret x = (\<lambda>s. Some (Inr (x, s)))"

definition throw :: "error \<Rightarrow> 'a comp" where
  "throw e = (\<lambda>s. Some (Inl e))"

definition bnd :: "'a comp \<Rightarrow> ('a \<Rightarrow> 'b comp) \<Rightarrow> 'b comp" where
  "bnd m f = (\<lambda>s. case m s of
                     None \<Rightarrow> None
                   | Some (Inl e) \<Rightarrow> Some (Inl e)
                   | Some (Inr (x, s')) \<Rightarrow> f x s')"

definition gets :: "(compileState \<Rightarrow> 'a) \<Rightarrow> 'a comp" where
  "gets f = (\<lambda>s. Some (Inr (f s, s)))"

definition modify :: "(compileState \<Rightarrow> compileState) \<Rightarrow> unit comp" where
  "modify f = (\<lambda>s. Some (Inr ((), f s)))"

text \<open>A property read of a value that may be \<^verbatim>\<open>undefined\<close>: a TypeError if it is.\<close>

definition demand :: "'a option \<Rightarrow> 'a comp" where
  "demand v = (case v of None \<Rightarrow> throw TypeError | Some x \<Rightarrow> ret x)"

fun foldM :: "('b \<Rightarrow> 'a \<Rightarrow> 'b comp) \<Rightarrow> 'a list \<Rightarrow> 'b \<Rightarrow> 'b comp" where
  "foldM f [] acc = ret acc"
| "foldM f (x # xs) acc = bnd (f acc x) (foldM f xs)"

text \<open>
  An identifier taken from the directive text may be \<^verbatim>\<open>undefined\<close> (\<open>None\<close>); as a key
  of the map it is the string "undefined".
\<close>

definition keyOf :: "string option \<Rightarrow> string" where
  "keyOf ident = (case ident of None \<Rightarrow> ''undefined'' | Some k \<Rightarrow> k)"

text \<open>\<^verbatim>\<open>compilationMap[ident]\<close>\<close>

definition lookupCompiled :: "string option \<Rightarrow> CompiledScrollInstruction option comp" where
  "lookupCompiled ident = gets (\<lambda>s. map_of (compilationMap s) (keyOf ident))"

text \<open>\<^verbatim>\<open>compilationMap[key] = r\<close>: a new key goes to the end.\<close>

fun assign :: "string \<Rightarrow> CompiledScrollInstruction \<Rightarrow> CompilationMap \<Rightarrow> CompilationMap" where
  "assign k r [] = [(k, r)]"
| "assign k r (p # ps) = (if fst p = k then (k, r) # ps else p # assign k r ps)"

section \<open>The directives\<close>

text \<open>
  In this section \<open>req\<close> stands for \<^verbatim>\<open>requestForProcessing\<close>, which the directives call
  to have another element compiled first, and \<open>resultHere\<close> is the record under
  construction. A function returns the record as the directive leaves it; where the source
  reports a diagnostic with \<^verbatim>\<open>console.error\<close> and returns, the record comes back as it
  was.
\<close>

definition directives :: "string list" where
  "directives = [''enter'', ''ease'', ''duration'', ''leave'', ''opacity-ease'', ''y'', ''x'']"

definition checkAllowReferent ::
  "(string option \<Rightarrow> unit comp) \<Rightarrow> string \<Rightarrow> string list \<Rightarrow> bool comp" where
  "checkAllowReferent req keyword dataParameter =
     (if keyword \<notin> set [''enter'', ''leave''] then ret False
      else bnd (req (elemAt dataParameter 1)) (\<lambda>_. ret True))"

text \<open>
  One of the four tests of \<^verbatim>\<open>dataParameter[0]\<close> against a referent; \<open>f\<close> computes the
  value from the referenced record and \<open>foundDataValue\<close> is the variable's value so far.
\<close>

definition referentValue ::
  "(string option \<Rightarrow> unit comp) \<Rightarrow> string \<Rightarrow> string list \<Rightarrow> string \<Rightarrow>
   (CompiledScrollInstruction \<Rightarrow> num) \<Rightarrow> num option \<Rightarrow> num option comp" where
  "referentValue req keyword dataParameter referent f foundDataValue =
     (if elemAt dataParameter 0 = Some referent then
        bnd (checkAllowReferent req keyword dataParameter) (\<lambda>allowed.
          if allowed then
            bnd (lookupCompiled (elemAt dataParameter 1)) (\<lambda>c.
            bnd (demand c) (\<lambda>c. ret (Some (f c))))
          else ret foundDataValue)
      else ret foundDataValue)"

definition resolveDataValue ::
  "(string option \<Rightarrow> unit comp) \<Rightarrow> string \<Rightarrow> string list \<Rightarrow> num option comp" where
  "resolveDataValue req keyword dataParameter =
     bnd (referentValue req keyword dataParameter ''with-entry'' (\<lambda>c. enterAt c) None)
       (\<lambda>v1.
     bnd (referentValue req keyword dataParameter ''with-exit'' (\<lambda>c. enterAt c + duration c) v1)
       (\<lambda>v2.
     bnd (referentValue req keyword dataParameter ''after-entry''
            (\<lambda>c. enterAt c + parseInt (elemAt dataParameter 2)) v2)
       (\<lambda>v3.
     referentValue req keyword dataParameter ''after-exit''
       (\<lambda>c. enterAt c + duration c + parseInt (elemAt dataParameter 2)) v3)))"

definition resolveDataSource ::
  "(string option \<Rightarrow> unit comp) \<Rightarrow> string list \<Rightarrow> CompiledScrollInstruction option comp" where
  "resolveDataSource req dataParameter =
     (if elemAt dataParameter 0 = Some ''like'' then
        bnd (req (elemAt dataParameter 1)) (\<lambda>_. lookupCompiled (elemAt dataParameter 1))
      else ret None)"

definition processEnter ::
  "string list \<Rightarrow> CompiledScrollInstruction option \<Rightarrow> num option \<Rightarrow>
   CompiledScrollInstruction \<Rightarrow> CompiledScrollInstruction" where
  "processEnter dataParameter foundDataSource foundDataValue resultHere =
     (case foundDataSource of
        Some src \<Rightarrow> resultHere\<lparr>enterAt := enterAt src\<rparr>
      | None \<Rightarrow>
          (case foundDataValue of
             Some v \<Rightarrow> resultHere\<lparr>enterAt := v\<rparr>
           | None \<Rightarrow>
               if length dataParameter > 1 then resultHere
               else resultHere\<lparr>enterAt := parseInt (elemAt dataParameter 0)\<rparr>))"

definition processLeave ::
  "string list \<Rightarrow> CompiledScrollInstruction option \<Rightarrow> num option \<Rightarrow>
   CompiledScrollInstruction \<Rightarrow> CompiledScrollInstruction" where
  "processLeave dataParameter foundDataSource foundDataValue resultHere =
     (case foundDataSource of
        Some src \<Rightarrow> resultHere\<lparr>duration := (enterAt src + duration src) - enterAt resultHere\<rparr>
      | None \<Rightarrow>
          (case foundDataValue of
             Some v \<Rightarrow> resultHere\<lparr>duration := v - enterAt resultHere\<rparr>
           | None \<Rightarrow>
               if length dataParameter > 1 then resultHere
               else resultHere\<lparr>enterAt := parseInt (elemAt dataParameter 0) - enterAt resultHere\<rparr>))"

definition processEase ::
  "bool \<Rightarrow> string list \<Rightarrow> CompiledScrollInstruction option \<Rightarrow>
   CompiledScrollInstruction \<Rightarrow> CompiledScrollInstruction" where
  "processEase isAbs dataParameter foundDataSource resultHere =
     (if isAbs then resultHere
      else (case foundDataSource of
              Some src \<Rightarrow> resultHere\<lparr>yEasingCurve := yEasingCurve src\<rparr>
            | None \<Rightarrow>
                if length dataParameter \<noteq> 4 then resultHere
                else (let curve = map (\<lambda>e. parseFloat (Some e)) dataParameter
                      in resultHere\<lparr>yEasingCurve := curve,
                           scrollListeners := (scrollListeners resultHere)
                             \<lparr>yEasingFunction := HeightEasing curve (element resultHere)\<rparr>\<rparr>)))"

definition processOpacityEase ::
  "ScrollInstruction \<Rightarrow> bool \<Rightarrow> string list \<Rightarrow> CompiledScrollInstruction option \<Rightarrow>
   CompiledScrollInstruction \<Rightarrow> CompiledScrollInstruction" where
  "processOpacityEase entry isAbs dataParameter foundDataSource resultHere =
     (case foundDataSource of
        Some src \<Rightarrow>
          resultHere\<lparr>opacityEasingCurve := opacityEasingCurve src,
            scrollListeners := (scrollListeners resultHere)
              \<lparr>opacityEasingFunction := opacityEasingFunction (scrollListeners src)\<rparr>\<rparr>
      | None \<Rightarrow>
          if length dataParameter \<noteq> 4 \<and> length dataParameter \<noteq> 8 then resultHere
          else resultHere\<lparr>opacityEasingCurve := map (\<lambda>e. parseInt (Some e)) dataParameter,
                 scrollListeners := (scrollListeners resultHere)
                   \<lparr>opacityEasingFunction :=
                      (if length dataParameter = 4 then OpacitySingle (name resultHere)
                       else OpacityDouble (name resultHere) isAbs (element entry))\<rparr>\<rparr>)"

definition processDuration ::
  "string list \<Rightarrow> CompiledScrollInstruction option \<Rightarrow>
   CompiledScrollInstruction \<Rightarrow> CompiledScrollInstruction" where
  "processDuration dataParameter foundDataSource resultHere =
     (case foundDataSource of
        Some src \<Rightarrow> resultHere\<lparr>duration := duration src\<rparr>
      | None \<Rightarrow>
          if length dataParameter > 1 then resultHere
          else resultHere\<lparr>duration := parseInt (elemAt dataParameter 0)\<rparr>)"

subsection \<open>The directives x and y\<close>

text \<open>
  The variable \<^verbatim>\<open>dataParameter\<close> is a reference to an array. The directive stores the
  array of its own parameters in \<^verbatim>\<open>resultHere[absoluteKey].value\<close>; after
  \<^verbatim>\<open>like\<close> the variable refers to the array of the referenced record in the map
  instead. \<open>holder\<close> says which: \<open>None\<close> for the record under construction, or the key
  of the record in the map. Reading the variable reads the array where it lives, and
  \<^verbatim>\<open>splice\<close> writes it there.
\<close>

definition readParameter ::
  "axis \<Rightarrow> string option \<Rightarrow> CompiledScrollInstruction \<Rightarrow> string list comp" where
  "readParameter ax holder resultHere =
     (case holder of
        None \<Rightarrow> demand (rawValue (absoluteOf ax resultHere))
      | Some k \<Rightarrow>
          bnd (lookupCompiled (Some k)) (\<lambda>c.
          bnd (demand c) (\<lambda>c. demand (rawValue (absoluteOf ax c)))))"

definition setRawValue ::
  "axis \<Rightarrow> string list \<Rightarrow> CompiledScrollInstruction \<Rightarrow> CompiledScrollInstruction" where
  "setRawValue ax v r = absoluteUpdate ax (\<lambda>a. a\<lparr>rawValue := Some v\<rparr>) r"

definition rewriteMap :: "axis \<Rightarrow> string \<Rightarrow> string list \<Rightarrow> compileState \<Rightarrow> compileState" where
  "rewriteMap ax k v s =
     s\<lparr>compilationMap :=
         map (\<lambda>(k', c). if k' = k then (k', setRawValue ax v c) else (k', c)) (compilationMap s)\<rparr>"

definition writeParameter ::
  "axis \<Rightarrow> string option \<Rightarrow> string list \<Rightarrow> CompiledScrollInstruction \<Rightarrow>
   CompiledScrollInstruction comp" where
  "writeParameter ax holder v resultHere =
     (case holder of
        None \<Rightarrow> ret (setRawValue ax v resultHere)
      | Some k \<Rightarrow> bnd (modify (rewriteMap ax k v)) (\<lambda>_. ret resultHere))"

text \<open>
  The do-while loop over \<^verbatim>\<open>likeIndex\<close>. Its body declares a second \<^verbatim>\<open>likeIndex\<close>, so
  the loop's condition reads the outer one, which stays \<open>-1\<close>: the body runs once.
\<close>

definition substituteLike ::
  "(string option \<Rightarrow> unit comp) \<Rightarrow> axis \<Rightarrow> string option \<Rightarrow> string list \<Rightarrow>
   CompiledScrollInstruction \<Rightarrow> CompiledScrollInstruction comp" where
  "substituteLike req ax holder prePipe resultHere =
     (let likeIndex = indexOf prePipe ''like''
      in if likeIndex > -1 then
           bnd (req (atInt prePipe (likeIndex + 1))) (\<lambda>_.
           bnd (lookupCompiled (atInt prePipe (likeIndex + 1))) (\<lambda>c.
           bnd (demand c) (\<lambda>c.
             (case rawValue (absoluteOf ax c) of
                None \<Rightarrow> ret resultHere
              | Some res \<Rightarrow>
                  if length res = 1 then
                    bnd (readParameter ax holder resultHere) (\<lambda>dataParameter.
                      writeParameter ax holder (splice dataParameter likeIndex 2 res) resultHere)
                  else ret resultHere))))
         else ret resultHere)"

text \<open>The part in \<^verbatim>\<open>|\<close> notation: the easing curve, or \<open>None\<close> where the source returns.\<close>

definition pipeEasing ::
  "(string option \<Rightarrow> unit comp) \<Rightarrow> axis \<Rightarrow> string list \<Rightarrow> int \<Rightarrow> EasingCurve option comp" where
  "pipeEasing req ax dataParameter pipeIndex =
     (if ''|'' \<in> set dataParameter then
        (if elemAt (sliceFrom dataParameter (-1)) 0 \<noteq> Some ''|'' then ret None
         else (let easingData = slice dataParameter (pipeIndex + 1) (-1)
               in if elemAt easingData 0 = Some ''like'' then
                    bnd (req (elemAt easingData 1)) (\<lambda>_.
                    bnd (lookupCompiled (elemAt easingData 1)) (\<lambda>c.
                    bnd (demand c) (\<lambda>c.
                      ret (Some (case easingFunction (absoluteOf ax c) of
                                   Some f \<Rightarrow> f
                                 | None \<Rightarrow> yEasingCurve c)))))
                  else if length easingData = 4 then
                    ret (Some (map (\<lambda>e. parseInt (Some e)) easingData))
                  else ret None))
      else ret (Some [Num 0, Num 0, Num 1, Num 1]))"

text \<open>The branch for parameters without a colon: a list of positions.\<close>

definition uniformForm ::
  "(string option \<Rightarrow> unit comp) \<Rightarrow> axis \<Rightarrow> string option \<Rightarrow> string list \<Rightarrow>
   CompiledScrollInstruction \<Rightarrow> CompiledScrollInstruction comp" where
  "uniformForm req ax holder dataParameter resultHere =
     (let pipeIndex = indexOf dataParameter ''|'';
          prePipe = slice dataParameter 0
                      (if pipeIndex > -1 then pipeIndex else int (length dataParameter))
      in bnd (substituteLike req ax holder prePipe resultHere) (\<lambda>resultHere.
         bnd (readParameter ax holder resultHere) (\<lambda>dataParameter.
         bnd (pipeEasing req ax dataParameter pipeIndex) (\<lambda>easing.
           (case easing of
              None \<Rightarrow> ret resultHere
            | Some easingCurveHere \<Rightarrow>
                ret (listenerUpdate ax (UniformTimeline prePipe easingCurveHere ax) resultHere))))))"

text \<open>
  The time of a clause of the fully custom form (\<^verbatim>\<open>segmentHere.byTime\<close>): \<open>None\<close>
  where the callback returns without a segment.
\<close>

definition segmentTime ::
  "(string option \<Rightarrow> unit comp) \<Rightarrow> CompiledScrollInstruction \<Rightarrow> num \<Rightarrow> string option list \<Rightarrow>
   num option comp" where
  "segmentTime req resultHere latestTime segment =
     (if truthy (grp segment 2) then
        (let timeData = parseInt (grp segment 2)
         in if grp segment 1 = Some ''+'' then ret (Some (latestTime + timeData))
            else if truthy (grp segment 1) then ret None
            else ret (Some timeData))
      else if truthy (grp segment 3) \<and> truthy (grp segment 4) then
        bnd (req (grp segment 4)) (\<lambda>_.
          if grp segment 3 = Some ''like'' \<or> grp segment 3 = Some ''with-exit'' then
            bnd (lookupCompiled (grp segment 4)) (\<lambda>c.
            bnd (demand c) (\<lambda>c. ret (Some (leaveAt c - enterAt resultHere))))
          else if grp segment 3 = Some ''with-entry'' then
            bnd (lookupCompiled (grp segment 4)) (\<lambda>c.
            bnd (demand c) (\<lambda>c. ret (Some (enterAt c - enterAt resultHere))))
          else ret (Some latestTime))
      else ret None)"

text \<open>
  \<^verbatim>\<open>startPos\<close> (groups from 5) or \<^verbatim>\<open>endPos\<close> (groups from 8) of a clause; \<open>current\<close>
  is the field's value so far.
\<close>

definition segmentPosition ::
  "(string option \<Rightarrow> unit comp) \<Rightarrow> axis \<Rightarrow> string option list \<Rightarrow> nat \<Rightarrow> num \<Rightarrow> num comp" where
  "segmentPosition req ax segment k current =
     (let parsed = (if truthy (grp segment k) then parseInt (grp segment k) else current)
      in if truthy (grp segment (k + 1)) then
           bnd (req (grp segment (k + 2))) (\<lambda>_.
           bnd (lookupCompiled (grp segment (k + 2))) (\<lambda>c.
           bnd (demand c) (\<lambda>c.
             (case destination (absoluteOf ax c) of
                None \<Rightarrow> ret parsed
              | Some res \<Rightarrow> ret res))))
         else ret parsed)"

definition segmentEase ::
  "(string option \<Rightarrow> unit comp) \<Rightarrow> string option list \<Rightarrow> EasingCurve comp" where
  "segmentEase req segment =
     (case grp segment 11 of
        Some (c # cs) \<Rightarrow> ret (map (\<lambda>e. parseFloat (Some e)) (splitOn CHR '' '' (c # cs)))
      | _ \<Rightarrow>
          if truthy (grp segment 12) then
            bnd (req (grp segment 13)) (\<lambda>_.
            bnd (lookupCompiled (grp segment 13)) (\<lambda>c.
            bnd (demand c) (\<lambda>c. ret (yEasingCurve c))))
          else ret [Num 0, Num 0, Num 1, Num 1])"

text \<open>
  One round of \<^verbatim>\<open>segmentedArg.forEach\<close>; the accumulator is \<^verbatim>\<open>latestTime\<close>,
  \<^verbatim>\<open>lastPos\<close> and \<^verbatim>\<open>segments\<close>.
\<close>

definition compileSegment ::
  "(string option \<Rightarrow> unit comp) \<Rightarrow> axis \<Rightarrow> CompiledScrollInstruction \<Rightarrow>
   num \<times> num \<times> CompiledAbsoluteSegment list \<Rightarrow> string option list \<Rightarrow>
   (num \<times> num \<times> CompiledAbsoluteSegment list) comp" where
  "compileSegment req ax resultHere acc segment =
     (case acc of (latestTime, lastPos, segments) \<Rightarrow>
        bnd (segmentTime req resultHere latestTime segment) (\<lambda>time.
          (case time of
             None \<Rightarrow> ret (latestTime, lastPos, segments)
           | Some byTimeHere \<Rightarrow>
               bnd (segmentPosition req ax segment 5 lastPos) (\<lambda>startHere.
               bnd (segmentPosition req ax segment 8 lastPos) (\<lambda>endHere.
               bnd (segmentEase req segment) (\<lambda>easeHere.
                 ret (byTimeHere, endHere,
                      segments @ [\<lparr>byTime = byTimeHere, startPos = startHere,
                                    endPos = endHere, ease = easeHere\<rparr>])))))))"

text \<open>
  \<^verbatim>\<open>segments.sort((a, b) => b.byTime - a.byTime)\<close>: a stable sort by descending time.
  (Where a difference is NaN the comparator is inconsistent and the engine's order is
  implementation-defined; the model treats such a pair as equal.)
\<close>

fun insertSegment ::
  "CompiledAbsoluteSegment \<Rightarrow> CompiledAbsoluteSegment list \<Rightarrow> CompiledAbsoluteSegment list" where
  "insertSegment x [] = [x]"
| "insertSegment x (y # ys) =
     (if byTime y < byTime x then x # y # ys else y # insertSegment x ys)"

definition sortSegments :: "CompiledAbsoluteSegment list \<Rightarrow> CompiledAbsoluteSegment list" where
  "sortSegments xs = foldl (\<lambda>sorted x. insertSegment x sorted) [] xs"

text \<open>The branch for parameters with a colon: the fully custom form.\<close>

definition customForm ::
  "(string option \<Rightarrow> unit comp) \<Rightarrow> axis \<Rightarrow> string list \<Rightarrow>
   CompiledScrollInstruction \<Rightarrow> CompiledScrollInstruction comp" where
  "customForm req ax dataParameter resultHere =
     (if elemAt dataParameter 1 \<noteq> Some ''.'' then ret resultHere
      else (let initialPos = parseInt (elemAt dataParameter 0);
                fullParameter = joinWith '' '' (sliceFrom dataParameter 2);
                (residual, segmentedArg) = scanClauses 0 fullParameter
            in if trim residual \<noteq> [] then ret resultHere
               else bnd (foldM (compileSegment req ax resultHere) segmentedArg (Num 0, Num 0, []))
                      (\<lambda>(latestTime, lastPos, segments).
                         ret (listenerUpdate ax
                                (CustomTimeline (name resultHere) (sortSegments segments) initialPos ax)
                                resultHere))))"

text \<open>
  The case \<^verbatim>\<open>'x'\<close>, \<^verbatim>\<open>'y'\<close> of the switch. Outside of \<^verbatim>\<open>!absolute\<close> mode the source
  reports a diagnostic and goes on: the test of \<open>isAbsolute\<close> has no effect on the
  result, so the function does not take it.
\<close>

definition processAxis ::
  "(string option \<Rightarrow> unit comp) \<Rightarrow> axis \<Rightarrow> string \<Rightarrow> string list \<Rightarrow>
   CompiledScrollInstruction option \<Rightarrow> CompiledScrollInstruction \<Rightarrow> CompiledScrollInstruction comp" where
  "processAxis req ax instructionText ownParameter foundDataSource resultHere0 =
     (let resultHere = setRawValue ax ownParameter resultHere0;
          holder = (case foundDataSource of
                     None \<Rightarrow> None
                   | Some src \<Rightarrow> Some (keyOf (elemAt ownParameter 1)))
      in bnd (readParameter ax holder resultHere) (\<lambda>dataParameter.
           if length dataParameter = 1 then
             ret (listenerUpdate ax (FixedPosition (name resultHere) ax)
                    (absoluteUpdate ax
                       (\<lambda>a. a\<lparr>destination := Some (parseInt (elemAt dataParameter 0))\<rparr>) resultHere))
           else if CHR '':'' \<notin> set instructionText then
             uniformForm req ax holder dataParameter resultHere
           else customForm req ax dataParameter resultHere))"

section \<open>requestForProcessing and compileScrollData\<close>

text \<open>The callback of \<^verbatim>\<open>instructionLines.forEach\<close>: one directive.\<close>

definition firstWord :: "string \<Rightarrow> string" where
  "firstWord s = (case splitOn CHR '' '' s of w # ws \<Rightarrow> w | [] \<Rightarrow> [])"

definition processInstruction ::
  "(string option \<Rightarrow> unit comp) \<Rightarrow> ScrollInstruction \<Rightarrow> bool \<Rightarrow>
   CompiledScrollInstruction \<Rightarrow> string \<Rightarrow> CompiledScrollInstruction comp" where
  "processInstruction req entry isAbs resultHere instructionText =
     (let keyword = firstWord instructionText
      in if keyword \<notin> set directives then ret resultHere
         else (let dataParameter = drop 1 (splitSpaces (trim instructionText))
               in bnd (resolveDataSource req dataParameter) (\<lambda>foundDataSource.
                  bnd (resolveDataValue req keyword dataParameter) (\<lambda>foundDataValue.
                    if keyword = ''enter'' then
                      ret (processEnter dataParameter foundDataSource foundDataValue resultHere)
                    else if keyword = ''leave'' then
                      ret (processLeave dataParameter foundDataSource foundDataValue resultHere)
                    else if keyword = ''ease'' then
                      ret (processEase isAbs dataParameter foundDataSource resultHere)
                    else if keyword = ''opacity-ease'' then
                      ret (processOpacityEase entry isAbs dataParameter foundDataSource resultHere)
                    else if keyword = ''duration'' then
                      ret (processDuration dataParameter foundDataSource resultHere)
                    else
                      processAxis req (if keyword = ''x'' then AxisX else AxisY) instructionText
                        dataParameter foundDataSource resultHere))))"

text \<open>The record \<^verbatim>\<open>resultHere\<close> as \<^verbatim>\<open>requestForProcessing\<close> creates it.\<close>

definition initialResult :: "ScrollInstruction \<Rightarrow> CompiledScrollInstruction" where
  "initialResult entry =
     \<lparr>element = element entry, instruction = instruction entry, name = name entry,
      enterAt = Num 0, duration = Num 100,
      yEasingCurve = [Num 0, Num 0, Num 1, Num 1],
      opacityEasingCurve = [Num 0, Num 1, Num 1, Num 1],
      scrollListeners =
        \<lparr>xEasingFunction = ConstantEvaluator (Num 0) ''vw'',
         yEasingFunction = HeightEasing [Num 0, Num 0, Num 1, Num 1] (element entry),
         opacityEasingFunction = ConstantEvaluator (Num 1) []\<rparr>,
      leaveAt = Num 100,
      absoluteY = \<lparr>rawValue = None, destination = None, destinations = None, easingFunction = None\<rparr>,
      absoluteX = \<lparr>rawValue = None, destination = None, destinations = None, easingFunction = None\<rparr>,
      isAbsolute = False\<rparr>"

text \<open>
  The two calls of \<^verbatim>\<open>sort\<close>: the sort is stable and each comparator knows two ranks, so
  each call moves the lines with the prefix behind the others and keeps the order otherwise.
\<close>

definition moveLast :: "string \<Rightarrow> string list \<Rightarrow> string list" where
  "moveLast p xs = filter (\<lambda>x. \<not> startsWith x p) xs @ filter (\<lambda>x. startsWith x p) xs"

definition instructionLinesOf :: "string \<Rightarrow> string list" where
  "instructionLinesOf text = filter (\<lambda>e. e \<noteq> []) (map trim (splitOn CHR '';'' text))"

text \<open>
  The last statements of \<^verbatim>\<open>requestForProcessing\<close>: \<^verbatim>\<open>leaveAt\<close> is set, the record is
  stored in the map and the entries of that name leave \<^verbatim>\<open>entriesToProcess\<close>.
\<close>

definition finish ::
  "ScrollInstruction \<Rightarrow> string option \<Rightarrow> CompiledScrollInstruction \<Rightarrow> compileState \<Rightarrow> compileState" where
  "finish entry ident resultHere s =
     s\<lparr>compilationMap :=
         assign (name entry) (resultHere\<lparr>leaveAt := enterAt resultHere + duration resultHere\<rparr>)
           (compilationMap s),
       entriesToProcess := filter (\<lambda>t. Some (name t) \<noteq> ident) (entriesToProcess s)\<rparr>"

text \<open>
  \<^verbatim>\<open>requestForProcessing\<close> after its test of the map: the entry is looked up and
  compiled. The first argument is the function to call for a nested request.
\<close>

definition compileEntry ::
  "(string option \<Rightarrow> unit comp) \<Rightarrow> string option \<Rightarrow> unit comp" where
  "compileEntry req ident =
     bnd (gets (\<lambda>s. find (\<lambda>e. Some (name e) = ident) (entriesToProcess s))) (\<lambda>found.
     bnd (demand found) (\<lambda>entry.
       (let instructionLines = instructionLinesOf (instruction entry);
            isAbs = (elemAt instructionLines 0 = Some ''!absolute'');
            resultHere = (initialResult entry)\<lparr>isAbsolute := isAbs\<rparr>;
            sortedLines = moveLast ''y '' (moveLast ''leave ''
                            (if isAbs then drop 1 instructionLines else instructionLines))
        in bnd (foldM (processInstruction req entry isAbs) sortedLines resultHere)
             (\<lambda>resultHere. modify (finish entry ident resultHere)))))"

text \<open>The body of \<^verbatim>\<open>requestForProcessing\<close>.\<close>

definition requestBody ::
  "(string option \<Rightarrow> unit comp) \<Rightarrow> string option \<Rightarrow> unit comp" where
  "requestBody req ident =
     bnd (lookupCompiled ident) (\<lambda>compiled.
       if compiled \<noteq> None then ret () else compileEntry req ident)"

text \<open>
  \<^verbatim>\<open>requestForProcessing\<close> calls itself with no bound on the depth. The first argument
  bounds the depth of the calls: at depth 0 the call does not return.
\<close>

fun requestForProcessing :: "nat \<Rightarrow> string option \<Rightarrow> unit comp" where
  "requestForProcessing 0 ident = (\<lambda>s. None)"
| "requestForProcessing (Suc n) ident = requestBody (requestForProcessing n) ident"

text \<open>
  The loop \<^verbatim>\<open>while (entriesToProcess.length > 0)\<close>; the second argument bounds its
  rounds.
\<close>

fun processAll :: "nat \<Rightarrow> nat \<Rightarrow> unit comp" where
  "processAll depth 0 = (\<lambda>s. if entriesToProcess s = [] then Some (Inr ((), s)) else None)"
| "processAll depth (Suc k) =
     (\<lambda>s. case entriesToProcess s of
             [] \<Rightarrow> Some (Inr ((), s))
           | e # es \<Rightarrow> bnd (requestForProcessing depth (Some (name e))) (\<lambda>_. processAll depth k) s)"

text \<open>
  \<^verbatim>\<open>Object.values(compilationMap)\<close>: the keys that are array indices (canonical
  numerals below \<open>2^32 - 1\<close>) come first, in ascending order, then the other keys in
  insertion order.
\<close>

definition isArrayIndex :: "string \<Rightarrow> bool" where
  "isArrayIndex k =
     (k \<noteq> [] \<and> list_all isDigit k \<and> (k = ''0'' \<or> take 1 k \<noteq> ''0'')
      \<and> digitsValue 10 k < 2 ^ 32 - 1)"

definition objectValues :: "CompilationMap \<Rightarrow> CompiledScrollInstruction list" where
  "objectValues m =
     map snd (sort_key (\<lambda>p. digitsValue 10 (fst p)) (filter (\<lambda>p. isArrayIndex (fst p)) m)
              @ filter (\<lambda>p. \<not> isArrayIndex (fst p)) m)"

definition report :: "CompilationMap \<Rightarrow> CompilationReport" where
  "report m =
     (let result = objectValues m
      in \<lparr>compilationResult = result,
          maxHeight = mathMaxAll (map (\<lambda>e. enterAt e + duration e) result) - Num 100\<rparr>)"

text \<open>
  \<^verbatim>\<open>compileScrollData\<close> on the entries \<^verbatim>\<open>this.entries\<close>, with a bound on the depth of
  the requests and on the rounds of the loop. The result is \<open>None\<close> when the bound is
  reached: the compilation returns if some bound gives a result.
\<close>

definition compileScrollData ::
  "nat \<Rightarrow> ScrollInstruction list \<Rightarrow> (error + CompilationReport) option" where
  "compileScrollData bound entries =
     (case processAll bound bound \<lparr>compilationMap = [], entriesToProcess = entries\<rparr> of
        None \<Rightarrow> None
      | Some (Inl e) \<Rightarrow> Some (Inl e)
      | Some (Inr (u, s)) \<Rightarrow> Some (Inr (report (compilationMap s))))"

section \<open>A compiler that detects reference cycles\<close>

text \<open>
  The specification asks of a reimplementation (its sections 4.3, 7 and 9) that a request
  for an element whose compilation is in progress be reported as \<open>CyclicReference\<close>. The
  source has no such test. The functions of this section add it to the functions of the
  source: \<open>requestGuarded\<close> carries the names of the elements in progress and throws
  \<open>CyclicReference\<close> where \<^verbatim>\<open>requestForProcessing\<close> would start on one of them again.
  They serve to say on which entries the source returns.
\<close>

definition requestedInProgress :: "string list \<Rightarrow> string option \<Rightarrow> bool" where
  "requestedInProgress inProgress ident =
     (case ident of None \<Rightarrow> False | Some k \<Rightarrow> k \<in> set inProgress)"

definition entered :: "string option \<Rightarrow> string list \<Rightarrow> string list" where
  "entered ident inProgress = (case ident of None \<Rightarrow> inProgress | Some k \<Rightarrow> k # inProgress)"

fun requestGuarded :: "nat \<Rightarrow> string list \<Rightarrow> string option \<Rightarrow> unit comp" where
  "requestGuarded 0 inProgress ident = (\<lambda>s. None)"
| "requestGuarded (Suc n) inProgress ident =
     bnd (lookupCompiled ident) (\<lambda>compiled.
       if compiled \<noteq> None then ret ()
       else if requestedInProgress inProgress ident then throw CyclicReference
       else compileEntry (requestGuarded n (entered ident inProgress)) ident)"

fun processAllGuarded :: "nat \<Rightarrow> nat \<Rightarrow> unit comp" where
  "processAllGuarded depth 0 =
     (\<lambda>s. if entriesToProcess s = [] then Some (Inr ((), s)) else None)"
| "processAllGuarded depth (Suc k) =
     (\<lambda>s. case entriesToProcess s of
             [] \<Rightarrow> Some (Inr ((), s))
           | e # es \<Rightarrow> bnd (requestGuarded depth [] (Some (name e)))
                        (\<lambda>_. processAllGuarded depth k) s)"

definition compileGuarded ::
  "nat \<Rightarrow> ScrollInstruction list \<Rightarrow> (error + CompilationReport) option" where
  "compileGuarded bound entries =
     (case processAllGuarded bound bound \<lparr>compilationMap = [], entriesToProcess = entries\<rparr> of
        None \<Rightarrow> None
      | Some (Inl e) \<Rightarrow> Some (Inl e)
      | Some (Inr (u, s)) \<Rightarrow> Some (Inr (report (compilationMap s))))"

text \<open>
  \<open>refines X m1 m2\<close>: in every state, \<open>m1\<close> does not return, or throws an error of
  \<open>X\<close>, or ends as \<open>m2\<close> does.
\<close>

definition refines :: "error set \<Rightarrow> 'a comp \<Rightarrow> 'a comp \<Rightarrow> bool" where
  "refines X m1 m2 = (\<forall>s. m1 s = None \<or> (\<exists>e \<in> X. m1 s = Some (Inl e)) \<or> m1 s = m2 s)"

text \<open>
  The measures of progress: the names of the entries still to process; that none of them
  is in the map; and, for a request at depth bound \<open>n\<close> with the elements
  \<open>inProgress\<close>, that these are distinct names of entries still to process, that fewer
  than \<open>n\<close> further names are left, and that the names stay within \<open>N\<close>.
\<close>

definition pendingNames :: "compileState \<Rightarrow> string set" where
  "pendingNames s = name ` set (entriesToProcess s)"

definition pendingUncompiled :: "compileState \<Rightarrow> bool" where
  "pendingUncompiled s = (\<forall>e \<in> set (entriesToProcess s). map_of (compilationMap s) (name e) = None)"

definition progressInv :: "nat \<Rightarrow> string list \<Rightarrow> string set \<Rightarrow> compileState \<Rightarrow> bool" where
  "progressInv n inProgress N s =
     (distinct inProgress \<and> set inProgress \<subseteq> pendingNames s
      \<and> card (pendingNames s) < n + length inProgress
      \<and> pendingNames s \<subseteq> N \<and> pendingUncompiled s)"

section \<open>Invariants of the compiler's state\<close>

text \<open>
  \<open>keeps strict P m\<close>: from a state that satisfies \<open>P\<close>, the computation \<open>m\<close> ends, if
  it returns a value, in a state that satisfies \<open>P\<close>; when \<open>strict\<close> holds it also does end
  (it returns or throws).
\<close>

definition keeps :: "bool \<Rightarrow> (compileState \<Rightarrow> bool) \<Rightarrow> 'a comp \<Rightarrow> bool" where
  "keeps strict P m =
     (\<forall>s. P s \<longrightarrow> (strict \<longrightarrow> m s \<noteq> None) \<and> (\<forall>x s'. m s = Some (Inr (x, s')) \<longrightarrow> P s'))"

text \<open>A predicate that \<^verbatim>\<open>splice\<close> on an array of a stored record does not falsify.\<close>

definition rewriteStable :: "(compileState \<Rightarrow> bool) \<Rightarrow> bool" where
  "rewriteStable P = (\<forall>s ax k v. P s \<longrightarrow> P (rewriteMap ax k v s))"

text \<open>The invariant of the data model: every stored record leaves when its duration is over.\<close>

definition mapInvariant :: "compileState \<Rightarrow> bool" where
  "mapInvariant s = (\<forall>c \<in> snd ` set (compilationMap s). leaveAt c = enterAt c + duration c)"

section \<open>Observations of a compilation\<close>

text \<open>The timing of the compiled records, in the order of the report.\<close>

definition timing ::
  "(error + CompilationReport) option \<Rightarrow> (error + (num \<times> num \<times> num) list) option" where
  "timing r =
     map_option (map_sum id (\<lambda>rep. map (\<lambda>c. (enterAt c, duration c, leaveAt c))
                                      (compilationResult rep))) r"

text \<open>
  What the x listener of every compiled record returns at the given values of the local
  progress. The listeners read the records by their names; the geometry plays no part
  in an x listener.
\<close>

definition sampleX ::
  "num list \<Rightarrow> (error + CompilationReport) option \<Rightarrow>
   (error + (error + rendered) list list) option" where
  "sampleX ts r =
     map_option (map_sum id (\<lambda>rep.
       map (\<lambda>c. map (applyEvaluator \<lparr>elementHeight = (\<lambda>e. Num 0), innerHeight = Num 1\<rparr>
                        (map (\<lambda>c. (name c, c)) (compilationResult rep))
                        (xEasingFunction (scrollListeners c))) ts)
           (compilationResult rep))) r"

text \<open>Whether a compilation returned a report.\<close>

definition returned :: "(error + CompilationReport) option \<Rightarrow> bool" where
  "returned r = (case r of Some (Inr rep) \<Rightarrow> True | _ \<Rightarrow> False)"

text \<open>A state whose map is not empty.\<close>

definition hasRecords :: "compileState \<Rightarrow> bool" where
  "hasRecords s = (compilationMap s \<noteq> [])"

text \<open>Two entries that refer to each other.\<close>

definition cyclicEntries :: "ScrollInstruction list" where
  "cyclicEntries =
     [\<lparr>element = 0, instruction = ''enter like b'', name = ''a''\<rparr>,
      \<lparr>element = 1, instruction = ''enter like a'', name = ''b''\<rparr>]"

section \<open>Properties of the curve evaluator\<close>

text \<open>
  Claim C3 says that \<^verbatim>\<open>evaluate\<close> returns exactly 0 for a progress of at most 0 and exactly
  1 for a progress of at least 1, for every curve, the degenerate ones (x1 = y1 and
  x2 = y2) included. The test for a degenerate curve comes first in \<^verbatim>\<open>evaluate\<close> and
  returns the progress unchanged: on the curve (0, 0, 1, 1) the progress -1 gives -1 and
  the progress 2 gives 2.
\<close>

theorem C3_degenerate_counterexample:
  "newBezierEasing (Some (Num 0)) (Some (Num 0)) (Some (Num 1)) (Some (Num 1))
     = Inr \<lparr>mX1 = Num 0, mY1 = Num 0, mX2 = Num 1, mY2 = Num 1\<rparr>
   \<and> evaluate \<lparr>mX1 = Num 0, mY1 = Num 0, mX2 = Num 1, mY2 = Num 1\<rparr> (Num (- 1)) = Num (- 1)
   \<and> evaluate \<lparr>mX1 = Num 0, mY1 = Num 0, mX2 = Num 1, mY2 = Num 1\<rparr> (Num 2) = Num 2"
  by (simp add: newBezierEasing_def evaluate_def)

lemma one_le_not_le_zero: "Num 1 \<le> p \<Longrightarrow> \<not> p \<le> Num 0"
  by (cases p) auto

text \<open>
  Claim C3 as amended: for every successfully constructed curve that is not degenerate
  and every progress \<open>p\<close>, \<^verbatim>\<open>evaluate\<close> returns exactly 0 when \<open>p \<le> 0\<close> and exactly 1
  when \<open>p \<ge> 1\<close>; for a degenerate curve it returns \<open>p\<close> itself, whatever \<open>p\<close> is.
\<close>

theorem C3_evaluate_extremes:
  assumes "newBezierEasing x1 y1 x2 y2 = Inr b"
  shows "(\<not> (mX1 b = mY1 b \<and> mX2 b = mY2 b) \<longrightarrow>
            (p \<le> Num 0 \<longrightarrow> evaluate b p = Num 0) \<and> (Num 1 \<le> p \<longrightarrow> evaluate b p = Num 1))
         \<and> (mX1 b = mY1 b \<and> mX2 b = mY2 b \<longrightarrow> evaluate b p = p)"
  using one_le_not_le_zero [of p] by (auto simp: evaluate_def)

theorem C3_evaluate_extremes_witness:
  "evaluate \<lparr>mX1 = Num 0.25, mY1 = Num 0.1, mX2 = Num 0.25, mY2 = Num 1\<rparr> (Num (- 3)) = Num 0
   \<and> evaluate \<lparr>mX1 = Num 0.25, mY1 = Num 0.1, mX2 = Num 0.25, mY2 = Num 1\<rparr> (Num 5) = Num 1
   \<and> evaluate \<lparr>mX1 = Num 0.5, mY1 = Num 0.5, mX2 = Num 1, mY2 = Num 1\<rparr> (Num 5) = Num 5"
proof -
  have c1: "newBezierEasing (Some (Num 0.25)) (Some (Num 0.1)) (Some (Num 0.25)) (Some (Num 1))
              = Inr \<lparr>mX1 = Num 0.25, mY1 = Num 0.1, mX2 = Num 0.25, mY2 = Num 1\<rparr>"
    by (simp add: newBezierEasing_def)
  have c2: "newBezierEasing (Some (Num 0.5)) (Some (Num 0.5)) (Some (Num 1)) (Some (Num 1))
              = Inr \<lparr>mX1 = Num 0.5, mY1 = Num 0.5, mX2 = Num 1, mY2 = Num 1\<rparr>"
    by (simp add: newBezierEasing_def)
  show ?thesis
    using C3_evaluate_extremes [OF c1, of "Num (- 3)"] C3_evaluate_extremes [OF c1, of "Num 5"]
      C3_evaluate_extremes [OF c2, of "Num 5"]
    by simp
qed

section \<open>Properties of the directives\<close>

lemma resolveDataValue_other:
  "keyword \<notin> set [''enter'', ''leave''] \<Longrightarrow>
   resolveDataValue req keyword dataParameter = ret None"
  by (simp add: resolveDataValue_def referentValue_def checkAllowReferent_def bnd_def ret_def)

lemma resolveDataSource_literal:
  "elemAt dataParameter 0 \<noteq> Some ''like'' \<Longrightarrow> resolveDataSource req dataParameter = ret None"
  by (simp add: resolveDataSource_def)

lemma resolveDataSource_like:
  "req (Some ident) s = Some (Inr ((), s')) \<Longrightarrow>
   resolveDataSource req (''like'' # ident # rest) s
     = Some (Inr (map_of (compilationMap s') ident, s'))"
  by (simp add: resolveDataSource_def elemAt_def bnd_def gets_def lookupCompiled_def keyOf_def)

subsection \<open>enter, leave and duration\<close>

text \<open>
  Claim C1 says that a literal \<^verbatim>\<open>leave V\<close> sets the duration to \<open>V\<close> minus the entry
  time and leaves the entry time alone, so that \<^verbatim>\<open>enter 0; leave 100;\<close> and
  \<^verbatim>\<open>enter 0; duration 100;\<close> compile to the same record. The branches of \<^verbatim>\<open>leave\<close> for a
  reference do so; the branch for a literal assigns the difference to \<^verbatim>\<open>enterAt\<close>. For
  \<^verbatim>\<open>enter 0; leave 100;\<close> the record enters at 100, lasts 100 and leaves at 200, where
  \<^verbatim>\<open>enter 0; duration 100;\<close> gives 0, 100 and 100.
\<close>

theorem C1_literal_leave_assigns_enterAt:
  "processLeave [v] None None resultHere
     = resultHere\<lparr>enterAt := parseInt (Some v) - enterAt resultHere\<rparr>
   \<and> timing (compileScrollData 2
        [\<lparr>element = 0, instruction = ''enter 0; leave 100;'', name = ''a''\<rparr>])
       = Some (Inr [(Num 100, Num 100, Num 200)])
   \<and> timing (compileScrollData 2
        [\<lparr>element = 0, instruction = ''enter 0; duration 100;'', name = ''a''\<rparr>])
       = Some (Inr [(Num 0, Num 100, Num 100)])"
proof -
  have "processLeave [v] None None resultHere
          = resultHere\<lparr>enterAt := parseInt (Some v) - enterAt resultHere\<rparr>"
    by (simp add: processLeave_def elemAt_def)
  moreover have "timing (compileScrollData 2
        [\<lparr>element = 0, instruction = ''enter 0; leave 100;'', name = ''a''\<rparr>])
       = Some (Inr [(Num 100, Num 100, Num 200)])"
    by code_simp
  moreover have "timing (compileScrollData 2
        [\<lparr>element = 0, instruction = ''enter 0; duration 100;'', name = ''a''\<rparr>])
       = Some (Inr [(Num 0, Num 100, Num 100)])"
    by code_simp
  ultimately show ?thesis by simp
qed

subsection \<open>ease and opacity-ease\<close>

text \<open>
  Claim C9: on an entry that is not absolute, \<^verbatim>\<open>ease like ID\<close> sets the field
  \<^verbatim>\<open>yEasingCurve\<close> to the curve of the referenced record and nothing else, so the
  listener \<^verbatim>\<open>yEasingFunction\<close> stays the one installed before; \<^verbatim>\<open>ease\<close> with four
  numbers sets the field to the numbers read by \<^verbatim>\<open>parseFloat\<close> and installs a listener
  built from that curve. Here \<open>req\<close> is any function for the nested request that returns
  on \<open>ident\<close>, and \<open>src\<close> is the record it leaves in the map.
\<close>

theorem C9_ease_like_copies_curve_only:
  assumes "firstWord instructionText = ''ease''"
    and "dataParameter = drop 1 (splitSpaces (trim instructionText))"
  shows "(\<forall>ident rest src s'.
            dataParameter = ''like'' # ident # rest
            \<and> req (Some ident) s = Some (Inr ((), s'))
            \<and> map_of (compilationMap s') ident = Some src \<longrightarrow>
            processInstruction req entry False resultHere instructionText s
              = Some (Inr (resultHere\<lparr>yEasingCurve := yEasingCurve src\<rparr>, s')))
         \<and> (length dataParameter = 4 \<and> elemAt dataParameter 0 \<noteq> Some ''like'' \<longrightarrow>
            processInstruction req entry False resultHere instructionText s
              = Some (Inr (resultHere
                  \<lparr>yEasingCurve := map (\<lambda>e. parseFloat (Some e)) dataParameter,
                   scrollListeners := (scrollListeners resultHere)
                     \<lparr>yEasingFunction :=
                        HeightEasing (map (\<lambda>e. parseFloat (Some e)) dataParameter)
                          (element resultHere)\<rparr>\<rparr>, s)))"
proof (intro conjI allI impI)
  fix ident rest src s'
  assume h: "dataParameter = ''like'' # ident # rest
            \<and> req (Some ident) s = Some (Inr ((), s'))
            \<and> map_of (compilationMap s') ident = Some src"
  then have src: "resolveDataSource req dataParameter s = Some (Inr (Some src, s'))"
    using resolveDataSource_like [of req ident s s' rest] by simp
  show "processInstruction req entry False resultHere instructionText s
              = Some (Inr (resultHere\<lparr>yEasingCurve := yEasingCurve src\<rparr>, s'))"
    using assms src
    by (simp add: processInstruction_def directives_def resolveDataValue_other
        bnd_def ret_def processEase_def Let_def)
next
  assume h: "length dataParameter = 4 \<and> elemAt dataParameter 0 \<noteq> Some ''like''"
  then show "processInstruction req entry False resultHere instructionText s
              = Some (Inr (resultHere
                  \<lparr>yEasingCurve := map (\<lambda>e. parseFloat (Some e)) dataParameter,
                   scrollListeners := (scrollListeners resultHere)
                     \<lparr>yEasingFunction :=
                        HeightEasing (map (\<lambda>e. parseFloat (Some e)) dataParameter)
                          (element resultHere)\<rparr>\<rparr>, s))"
    using assms
    by (simp add: processInstruction_def directives_def resolveDataValue_other
        resolveDataSource_literal bnd_def ret_def processEase_def Let_def)
qed

theorem C9_ease_like_witness:
  "processInstruction (requestForProcessing 1)
     \<lparr>element = 0, instruction = ''ease like b'', name = ''a''\<rparr> False
     (initialResult \<lparr>element = 0, instruction = ''ease like b'', name = ''a''\<rparr>)
     ''ease like b''
     \<lparr>compilationMap =
        [(''b'', (initialResult \<lparr>element = 1, instruction = ''ease 0.5 0 0.5 1'', name = ''b''\<rparr>)
                   \<lparr>yEasingCurve := [Num 0.5, Num 0, Num 0.5, Num 1]\<rparr>)],
      entriesToProcess = []\<rparr>
   = Some (Inr ((initialResult \<lparr>element = 0, instruction = ''ease like b'', name = ''a''\<rparr>)
                  \<lparr>yEasingCurve := [Num 0.5, Num 0, Num 0.5, Num 1]\<rparr>,
                \<lparr>compilationMap =
        [(''b'', (initialResult \<lparr>element = 1, instruction = ''ease 0.5 0 0.5 1'', name = ''b''\<rparr>)
                   \<lparr>yEasingCurve := [Num 0.5, Num 0, Num 0.5, Num 1]\<rparr>)],
      entriesToProcess = []\<rparr>))"
proof -
  define s0 where "s0 = \<lparr>compilationMap =
        [(''b'', (initialResult \<lparr>element = 1, instruction = ''ease 0.5 0 0.5 1'', name = ''b''\<rparr>)
                   \<lparr>yEasingCurve := [Num 0.5, Num 0, Num 0.5, Num 1]\<rparr>)],
      entriesToProcess = []\<rparr>"
  have h1: "firstWord ''ease like b'' = ''ease''" by code_simp
  have h2: "[''like'', ''b''] = drop 1 (splitSpaces (trim ''ease like b''))" by code_simp
  have h3: "requestForProcessing 1 (Some ''b'') s0 = Some (Inr ((), s0))"
    by (simp add: s0_def requestBody_def bnd_def ret_def lookupCompiled_def gets_def keyOf_def)
  have h4: "map_of (compilationMap s0) ''b''
      = Some ((initialResult \<lparr>element = 1, instruction = ''ease 0.5 0 0.5 1'', name = ''b''\<rparr>)
                   \<lparr>yEasingCurve := [Num 0.5, Num 0, Num 0.5, Num 1]\<rparr>)"
    by (simp add: s0_def)
  show ?thesis
    using C9_ease_like_copies_curve_only [OF h1 h2, of "requestForProcessing 1" s0] h3 h4
    unfolding s0_def [symmetric] by fastforce
qed

lemma takeWhile_digits_dot:
  "list_all isDigit ds \<Longrightarrow> takeWhile isDigit (ds @ CHR ''.'' # rest) = ds"
  by (induction ds) (auto simp: isDigit_def)

text \<open>\<^verbatim>\<open>parseInt\<close> reads the digits before a decimal point and drops the fraction.\<close>

lemma parseInt_truncates:
  assumes "ds \<noteq> []" and "list_all isDigit ds"
  shows "parseInt (Some (ds @ CHR ''.'' # rest)) = Num (real (digitsValue 10 ds))"
proof -
  define str where "str = ds @ CHR ''.'' # rest"
  obtain d ds' where ds: "ds = d # ds'" using assms(1) by (cases ds) auto
  have d: "isDigit d" using assms(2) ds by simp
  then have nw: "\<not> isWhiteSpace d" and ns: "d \<noteq> CHR ''-''" "d \<noteq> CHR ''+''"
    by (auto simp: isDigit_def isWhiteSpace_def)
  have s1: "dropWhile isWhiteSpace str = str"
    using nw ds by (simp add: str_def)
  have t1: "take (Suc 0) str = [d]"
    using ds by (simp add: str_def)
  have hx: "take 2 str \<noteq> ''0x''" "take 2 str \<noteq> ''0X''"
    using assms(2) ds by (cases ds'; auto simp: isDigit_def str_def)+
  have tw: "takeWhile isDigit str = ds"
    using takeWhile_digits_dot [OF assms(2)] by (simp add: str_def)
  have "parseInt (Some str) = Num (real (digitsValue 10 ds))"
    using ns assms(1) by (simp add: parseInt_def parseIntString_def Let_def s1 t1 hx tw)
  then show ?thesis by (simp add: str_def)
qed



subsection \<open>x and y\<close>

text \<open>
  Claim C4 says that an \<^verbatim>\<open>x\<close> or \<^verbatim>\<open>y\<close> directive in an entry that is not absolute is
  reported and dropped, so that the position fields and the default listeners stay. The
  source reports the diagnostic and goes on with the directive: for the entry \<^verbatim>\<open>x 5\<close>,
  which is not absolute, the record holds the parameter and the destination 5, and its x
  listener returns \<^verbatim>\<open>5vw\<close> instead of the default \<^verbatim>\<open>0vw\<close>.
\<close>

theorem C4_axis_outside_absolute_is_applied:
  "map_option (map_sum id (\<lambda>rep. map (\<lambda>c. (isAbsolute c, xEasingFunction (scrollListeners c),
        absoluteX c)) (compilationResult rep)))
     (compileScrollData 2 [\<lparr>element = 0, instruction = ''x 5'', name = ''a''\<rparr>])
   = Some (Inr [(False, FixedPosition ''a'' AxisX,
        \<lparr>rawValue = Some [''5''], destination = Some (Num 5), destinations = None,
         easingFunction = None\<rparr>)])
   \<and> sampleX [Num 0, Num 1]
        (compileScrollData 2 [\<lparr>element = 0, instruction = ''x 5'', name = ''a''\<rparr>])
      = Some (Inr [[Inr (Some (Num 5), ''vw''), Inr (Some (Num 5), ''vw'')]])"
  by code_simp


lemma parseInt_like: "parseInt (Some ''like'') = NaN"
  by code_simp

lemma parseInt_pipe: "parseInt (Some ''|'') = NaN"
  by code_simp

lemma numeric_token: "parseInt (Some p) = Num v \<Longrightarrow> p \<noteq> ''like'' \<and> p \<noteq> ''|''"
  using parseInt_like parseInt_pipe by auto

lemma uniformPosition_four:
  assumes "parseInt (Some p0) = Num v0" "parseInt (Some p1) = Num v1"
    "parseInt (Some p2) = Num v2" "parseInt (Some p3) = Num v3"
  shows "uniformPosition [p0, p1, p2, p3] [Num 0, Num 0, Num 1, Num 1] ax (Num 0)
           = Inr (Some (Num v0), distanceUnit ax)"
    and "uniformPosition [p0, p1, p2, p3] [Num 0, Num 0, Num 1, Num 1] ax (Num (1 / 3))
           = Inr (Some (Num v1), distanceUnit ax)"
    and "uniformPosition [p0, p1, p2, p3] [Num 0, Num 0, Num 1, Num 1] ax (Num (2 / 3))
           = Inr (Some (Num v2), distanceUnit ax)"
    and "uniformPosition [p0, p1, p2, p3] [Num 0, Num 0, Num 1, Num 1] ax (Num 1)
           = Inr (Some (Num v3), distanceUnit ax)"
  using assms
  by (simp_all add: uniformPosition_def Let_def mathMin_def scaled_def computeBezier_def
      minus_num_def atInt_def elemAt_def)

lemma processAxis_four:
  assumes "CHR '':'' \<notin> set instructionText"
    and "parseInt (Some p0) = Num v0" "parseInt (Some p1) = Num v1"
    "parseInt (Some p2) = Num v2" "parseInt (Some p3) = Num v3"
  shows "processAxis req ax instructionText [p0, p1, p2, p3] None resultHere s
    = Some (Inr (listenerUpdate ax (UniformTimeline [p0, p1, p2, p3] [Num 0, Num 0, Num 1, Num 1] ax)
                   (setRawValue ax [p0, p1, p2, p3] resultHere), s))"
proof -
  have ne: "p0 \<noteq> ''like''" "p1 \<noteq> ''like''" "p2 \<noteq> ''like''" "p3 \<noteq> ''like''"
    "p0 \<noteq> ''|''" "p1 \<noteq> ''|''" "p2 \<noteq> ''|''" "p3 \<noteq> ''|''"
    using assms numeric_token by blast+
  have rd: "readParameter ax None (setRawValue ax [p0, p1, p2, p3] resultHere) s
              = Some (Inr ([p0, p1, p2, p3], s))"
    by (cases ax) (simp_all add: readParameter_def setRawValue_def absoluteOf_def absoluteUpdate_def
        demand_def ret_def)
  have ix: "indexOf [p0, p1, p2, p3] ''|'' = -1" "indexOf [p0, p1, p2, p3] ''like'' = -1"
    using ne by simp_all
  have sl: "slice [p0, p1, p2, p3] 0 4 = [p0, p1, p2, p3]"
    by (simp add: slice_def relIndex_def)
  show ?thesis
    using assms(1) ne rd ix sl
    by (simp add: processAxis_def Let_def bnd_def ret_def uniformForm_def substituteLike_def
        pipeEasing_def)
qed




text \<open>
  Where the first clause states no start position, the segment starts at 0 (the initial
  value of \<^verbatim>\<open>lastPos\<close>), not at \<^verbatim>\<open>initialPos\<close>, which the listener stores in a checkpoint
  and never reads.
\<close>

lemma custom_omitted_start:
  "sampleX [Num 0, Num 0.05]
     (compileScrollData 2
        [\<lparr>element = 0, instruction = ''!absolute; x 50 . 10: - 20 | 0 0 1 1 |'', name = ''a''\<rparr>])
   = Some (Inr [[Inr (Some (Num 0), ''vw''), Inr (Some (Num 10), ''vw'')]])"
  by code_simp

lemma minus_zero_num: "x - Num 0 = (x::num)"
  by (cases x) (auto simp: minus_num_def)

lemma findIndex_none: "\<forall>e \<in> set xs. \<not> p e \<Longrightarrow> findIndex p xs = -1"
  by (induction xs) auto

lemma last_by_slice: "xs \<noteq> [] \<Longrightarrow> elemAt (sliceFrom xs (-1)) 0 = Some (last xs)"
  by (cases xs rule: rev_cases) (auto simp: elemAt_def sliceFrom_def relIndex_def)



section \<open>Rules for invariants\<close>

named_theorems keeps_intro

lemma keeps_ret [keeps_intro]: "keeps T P (ret x)"
  by (simp add: keeps_def ret_def)

lemma keeps_throw [keeps_intro]: "keeps T P (throw e)"
  by (simp add: keeps_def throw_def)

lemma keeps_gets [keeps_intro]: "keeps T P (gets f)"
  by (simp add: keeps_def gets_def)

lemma keeps_demand [keeps_intro]: "keeps T P (demand v)"
  by (cases v) (simp_all add: demand_def keeps_ret keeps_throw)

lemma keeps_lookupCompiled [keeps_intro]: "keeps T P (lookupCompiled i)"
  by (simp add: lookupCompiled_def keeps_gets)

lemma keeps_bnd [keeps_intro]:
  assumes m: "keeps T P m" and f: "\<And>x. keeps T P (f x)"
  shows "keeps T P (bnd m f)"
  unfolding keeps_def
proof (intro allI impI conjI)
  fix s assume s: "P s" and t: "T"
  show "bnd m f s \<noteq> None"
  proof (cases "m s")
    case None
    then show ?thesis using m s t by (auto simp: keeps_def)
  next
    case (Some r)
    show ?thesis
    proof (cases r)
      case (Inl e)
      then show ?thesis using Some by (simp add: bnd_def)
    next
      case (Inr p)
      obtain x s1 where p: "p = (x, s1)" by (cases p)
      have "P s1" using m s Some Inr p by (simp add: keeps_def)
      then have "f x s1 \<noteq> None" using f [of x] t by (simp add: keeps_def)
      then show ?thesis using Some Inr p by (simp add: bnd_def)
    qed
  qed
next
  fix s y s' assume s: "P s" and r: "bnd m f s = Some (Inr (y, s'))"
  show "P s'"
  proof (cases "m s")
    case None
    then show ?thesis using r by (simp add: bnd_def)
  next
    case (Some q)
    show ?thesis
    proof (cases q)
      case (Inl e)
      then show ?thesis using Some r by (simp add: bnd_def)
    next
      case (Inr p)
      obtain x s1 where p: "p = (x, s1)" by (cases p)
      have "P s1" using m s Some Inr p by (simp add: keeps_def)
      moreover have "f x s1 = Some (Inr (y, s'))" using Some Inr p r by (simp add: bnd_def)
      ultimately show ?thesis using f [of x] by (simp add: keeps_def)
    qed
  qed
qed

lemma keeps_if [keeps_intro]:
  "(c \<Longrightarrow> keeps T P a) \<Longrightarrow> (\<not> c \<Longrightarrow> keeps T P b) \<Longrightarrow> keeps T P (if c then a else b)"
  by simp

lemma keeps_case_option [keeps_intro]:
  "keeps T P a \<Longrightarrow> (\<And>y. keeps T P (f y)) \<Longrightarrow> keeps T P (case x of None \<Rightarrow> a | Some y \<Rightarrow> f y)"
  by (cases x) simp_all

lemma keeps_case_list [keeps_intro]:
  "keeps T P a \<Longrightarrow> (\<And>y ys. keeps T P (f y ys)) \<Longrightarrow> keeps T P (case x of [] \<Rightarrow> a | y # ys \<Rightarrow> f y ys)"
  by (cases x) simp_all

lemma keeps_case_prod [keeps_intro]:
  "(\<And>a b. keeps T P (f a b)) \<Longrightarrow> keeps T P (case p of (a, b) \<Rightarrow> f a b)"
  by (cases p) simp

lemma keeps_Let [keeps_intro]: "keeps T P (f x) \<Longrightarrow> keeps T P (Let x f)"
  by simp

lemma keeps_foldM [keeps_intro]:
  "(\<And>a x. keeps T P (f a x)) \<Longrightarrow> keeps T P (foldM f xs acc)"
proof (induction xs arbitrary: acc)
  case Nil
  show ?case by (simp add: keeps_ret)
next
  case (Cons x xs)
  show ?case by (simp, rule keeps_bnd) (use Cons in auto)
qed

lemma keeps_modify: "(\<And>s. P s \<Longrightarrow> P (f s)) \<Longrightarrow> keeps T P (modify f)"
  by (simp add: keeps_def modify_def)

lemma keeps_writeParameter [keeps_intro]:
  assumes "rewriteStable P"
  shows "keeps T P (writeParameter ax holder v r)"
proof (cases holder)
  case None
  then show ?thesis by (simp add: writeParameter_def keeps_ret)
next
  case (Some k)
  have "keeps T P (modify (rewriteMap ax k v))"
    using assms by (intro keeps_modify) (simp add: rewriteStable_def)
  then have "keeps T P (bnd (modify (rewriteMap ax k v)) (\<lambda>_. ret r))"
    by (intro keeps_bnd keeps_ret)
  then show ?thesis using Some by (simp add: writeParameter_def)
qed

lemma keeps_readParameter [keeps_intro]: "keeps T P (readParameter ax holder r)"
  unfolding readParameter_def by (intro keeps_intro)


lemma keeps_checkAllowReferent:
  assumes "\<And>i. keeps T P (req i)"
  shows "keeps T P (checkAllowReferent req keyword dataParameter)"
  unfolding checkAllowReferent_def by (intro keeps_intro assms)

lemma keeps_referentValue:
  assumes "\<And>i. keeps T P (req i)"
  shows "keeps T P (referentValue req keyword dataParameter referent f v)"
  unfolding referentValue_def by (intro keeps_intro keeps_checkAllowReferent assms)

lemma keeps_resolveDataValue:
  assumes "\<And>i. keeps T P (req i)"
  shows "keeps T P (resolveDataValue req keyword dataParameter)"
  unfolding resolveDataValue_def by (intro keeps_intro keeps_referentValue assms)

lemma keeps_resolveDataSource:
  assumes "\<And>i. keeps T P (req i)"
  shows "keeps T P (resolveDataSource req dataParameter)"
  unfolding resolveDataSource_def by (intro keeps_intro assms)

lemma keeps_substituteLike:
  assumes "\<And>i. keeps T P (req i)" and "rewriteStable P"
  shows "keeps T P (substituteLike req ax holder prePipe r)"
  unfolding substituteLike_def by (intro keeps_intro assms)

lemma keeps_pipeEasing:
  assumes "\<And>i. keeps T P (req i)"
  shows "keeps T P (pipeEasing req ax dataParameter pipeIndex)"
  unfolding pipeEasing_def by (intro keeps_intro assms)

lemma keeps_uniformForm:
  assumes "\<And>i. keeps T P (req i)" and "rewriteStable P"
  shows "keeps T P (uniformForm req ax holder dataParameter r)"
  unfolding uniformForm_def
  by (intro keeps_intro keeps_substituteLike keeps_pipeEasing assms)

lemma keeps_segmentTime:
  assumes "\<And>i. keeps T P (req i)"
  shows "keeps T P (segmentTime req r latestTime segment)"
  unfolding segmentTime_def by (intro keeps_intro assms)

lemma keeps_segmentPosition:
  assumes "\<And>i. keeps T P (req i)"
  shows "keeps T P (segmentPosition req ax segment k current)"
  unfolding segmentPosition_def by (intro keeps_intro assms)

lemma keeps_segmentEase:
  assumes "\<And>i. keeps T P (req i)"
  shows "keeps T P (segmentEase req segment)"
  unfolding segmentEase_def by (intro keeps_intro assms)

lemma keeps_compileSegment:
  assumes "\<And>i. keeps T P (req i)"
  shows "keeps T P (compileSegment req ax r acc segment)"
  unfolding compileSegment_def
  by (intro keeps_intro keeps_segmentTime keeps_segmentPosition keeps_segmentEase assms)

lemma keeps_customForm:
  assumes "\<And>i. keeps T P (req i)"
  shows "keeps T P (customForm req ax dataParameter r)"
  unfolding customForm_def
  by (intro keeps_intro keeps_compileSegment assms)

lemma keeps_processAxis:
  assumes "\<And>i. keeps T P (req i)" and "rewriteStable P"
  shows "keeps T P (processAxis req ax instructionText ownParameter foundDataSource r)"
  unfolding processAxis_def
  by (intro keeps_intro keeps_uniformForm keeps_customForm assms)

lemma keeps_processInstruction:
  assumes "\<And>i. keeps T P (req i)" and "rewriteStable P"
  shows "keeps T P (processInstruction req entry isAbs r instructionText)"
  unfolding processInstruction_def
  by (intro keeps_intro keeps_resolveDataSource keeps_resolveDataValue keeps_processAxis assms)


lemma keeps_compileEntry:
  assumes "\<And>i. keeps T P (req i)" and "rewriteStable P"
    and "\<And>entry r s. P s \<Longrightarrow> P (finish entry ident r s)"
  shows "keeps T P (compileEntry req ident)"
  unfolding compileEntry_def
  by (intro keeps_intro keeps_modify keeps_processInstruction assms)

lemma keeps_requestBody:
  assumes "\<And>i. keeps T P (req i)" and "rewriteStable P"
    and "\<And>entry r s. P s \<Longrightarrow> P (finish entry ident r s)"
  shows "keeps T P (requestBody req ident)"
  unfolding requestBody_def
  by (intro keeps_intro keeps_compileEntry assms)

lemma keeps_requestForProcessing:
  assumes "rewriteStable P"
    and "\<And>entry ident r s. P s \<Longrightarrow> P (finish entry ident r s)"
  shows "keeps False P (requestForProcessing n ident)"
proof (induction n arbitrary: ident)
  case 0
  show ?case by (simp add: keeps_def)
next
  case (Suc n)
  show ?case by (simp, rule keeps_requestBody) (use Suc assms in auto)
qed

lemma keeps_processAll:
  assumes "rewriteStable P"
    and "\<And>entry ident r s. P s \<Longrightarrow> P (finish entry ident r s)"
  shows "keeps False P (processAll depth k)"
proof (induction k)
  case 0
  show ?case by (simp add: keeps_def)
next
  case (Suc k)
  show ?case
    unfolding keeps_def
  proof (intro allI impI conjI)
    fix s x s' assume s: "P s" and r: "processAll depth (Suc k) s = Some (Inr (x, s'))"
    show "P s'"
    proof (cases "entriesToProcess s")
      case Nil
      then show ?thesis using s r by simp
    next
      case (Cons e es)
      have "keeps False P (bnd (requestForProcessing depth (Some (name e))) (\<lambda>_. processAll depth k))"
        by (intro keeps_bnd keeps_requestForProcessing assms Suc)
      then show ?thesis using s r Cons by (simp add: keeps_def)
    qed
  qed simp
qed

section \<open>The invariant leaveAt = enterAt + duration\<close>

lemma setRawValue_timing [simp]:
  "leaveAt (setRawValue ax v c) = leaveAt c" "enterAt (setRawValue ax v c) = enterAt c"
  "duration (setRawValue ax v c) = duration c"
  by (cases ax; simp add: setRawValue_def absoluteUpdate_def)+

lemma mapInvariant_rewrite: "rewriteStable mapInvariant"
  by (auto simp: rewriteStable_def mapInvariant_def rewriteMap_def split: if_splits)

lemma set_assign: "p \<in> set (assign k r m) \<Longrightarrow> p = (k, r) \<or> p \<in> set m"
  by (induction m) (auto split: if_splits)

lemma mapInvariant_finish:
  assumes "mapInvariant s"
  shows "mapInvariant (finish entry ident r s)"
  unfolding mapInvariant_def
proof
  fix c assume "c \<in> snd ` set (compilationMap (finish entry ident r s))"
  then obtain k where "(k, c) \<in> set (assign (name entry)
      (r\<lparr>leaveAt := enterAt r + duration r\<rparr>) (compilationMap s))"
    by (auto simp: finish_def)
  then have "c = r\<lparr>leaveAt := enterAt r + duration r\<rparr> \<or> (k, c) \<in> set (compilationMap s)"
    using set_assign by fastforce
  then show "leaveAt c = enterAt c + duration c"
    using assms by (auto simp: mapInvariant_def)
qed

lemma set_objectValues: "set (objectValues m) = snd ` set m"
  by (auto simp: objectValues_def)



lemma keepsD: "keeps T P m \<Longrightarrow> P s \<Longrightarrow> m s = Some (Inr (x, s')) \<Longrightarrow> P s'"
  unfolding keeps_def by blast

lemma compileScrollData_run:
  assumes "compileScrollData bound entries = Some (Inr rep)"
  shows "\<exists>u s'. processAll bound bound \<lparr>compilationMap = [], entriesToProcess = entries\<rparr>
                   = Some (Inr (u, s')) \<and> rep = report (compilationMap s')"
proof (cases "processAll bound bound \<lparr>compilationMap = [], entriesToProcess = entries\<rparr>")
  case None
  then show ?thesis using assms by (simp add: compileScrollData_def)
next
  case (Some r)
  show ?thesis
  proof (cases r)
    case (Inl e)
    then show ?thesis using assms Some by (simp add: compileScrollData_def)
  next
    case (Inr p)
    then show ?thesis using assms Some by (cases p) (simp add: compileScrollData_def)
  qed
qed

lemma mapInvariant_request: "keeps False mapInvariant (requestForProcessing n ident)"
  by (rule keeps_requestForProcessing) (simp_all add: mapInvariant_rewrite mapInvariant_finish)

lemma mapInvariant_processAll: "keeps False mapInvariant (processAll depth k)"
  by (rule keeps_processAll) (simp_all add: mapInvariant_rewrite mapInvariant_finish)



section \<open>The total scroll extent\<close>

lemma le_num_trans: "a \<le> b \<Longrightarrow> b \<le> c \<Longrightarrow> a \<le> (c::num)"
  by (cases a; cases b; cases c) auto

lemma mathMax_cases:
  assumes "a \<noteq> NaN" "b \<noteq> NaN"
  shows "mathMax a b \<noteq> NaN \<and> a \<le> mathMax a b \<and> b \<le> mathMax a b
         \<and> (mathMax a b = a \<or> mathMax a b = b)"
  using assms by (cases a; cases b) (auto simp: mathMax_def)

lemma foldl_mathMax:
  assumes "acc \<noteq> NaN" "\<forall>x \<in> set xs. x \<noteq> NaN"
  shows "foldl mathMax acc xs \<noteq> NaN \<and> acc \<le> foldl mathMax acc xs
         \<and> (\<forall>x \<in> set xs. x \<le> foldl mathMax acc xs)
         \<and> (foldl mathMax acc xs = acc \<or> foldl mathMax acc xs \<in> set xs)"
  using assms
proof (induction xs arbitrary: acc)
  case Nil
  then show ?case by (cases acc) auto
next
  case (Cons x xs)
  have x: "x \<noteq> NaN" and xs: "\<forall>y \<in> set xs. y \<noteq> NaN" using Cons.prems by auto
  note m = mathMax_cases [OF Cons.prems(1) x]
  note ih = Cons.IH [of "mathMax acc x", OF conjunct1 [OF m] xs]
  show ?case
    using m ih by (auto intro: le_num_trans)
qed

lemma le_NegInf: "x \<le> NegInf \<Longrightarrow> x = NegInf"
  by (cases x) auto

lemma mathMaxAll_greatest:
  assumes "xs \<noteq> []" "\<forall>x \<in> set xs. x \<noteq> NaN"
  shows "mathMaxAll xs \<in> set xs \<and> (\<forall>x \<in> set xs. x \<le> mathMaxAll xs)"
proof -
  have f: "(\<forall>x \<in> set xs. x \<le> mathMaxAll xs) \<and> (mathMaxAll xs = NegInf \<or> mathMaxAll xs \<in> set xs)"
    using foldl_mathMax [of NegInf xs] assms(2) by (simp add: mathMaxAll_def)
  obtain y where y: "y \<in> set xs" using assms(1) by (cases xs) auto
  show ?thesis
  proof (cases "mathMaxAll xs = NegInf")
    case True
    then have "y = NegInf" using f y le_NegInf by auto
    then show ?thesis using f y True by auto
  next
    case False
    then show ?thesis using f by auto
  qed
qed

lemma mathMax_NaN_left: "mathMax NaN b = NaN"
  by (simp add: mathMax_def)

lemma mathMax_NaN_right: "mathMax a NaN = NaN"
  by (simp add: mathMax_def)

lemma foldl_mathMax_NaN: "foldl mathMax NaN xs = NaN"
  by (induction xs) (simp_all add: mathMax_NaN_left)

lemma mathMaxAll_NaN: "NaN \<in> set xs \<Longrightarrow> mathMaxAll xs = NaN"
proof -
  have "NaN \<in> set xs \<Longrightarrow> foldl mathMax acc xs = NaN" for acc
  proof (induction xs arbitrary: acc)
    case Nil
    then show ?case by simp
  next
    case (Cons x xs)
    show ?case
    proof (cases "x = NaN")
      case True
      then show ?thesis by (simp add: mathMax_NaN_right foldl_mathMax_NaN)
    next
      case False
      then show ?thesis using Cons by simp
    qed
  qed
  then show "NaN \<in> set xs \<Longrightarrow> mathMaxAll xs = NaN" by (simp add: mathMaxAll_def)
qed


lemma bnd_InrD:
  "bnd m f s = Some (Inr (y, s')) \<Longrightarrow>
   \<exists>x s1. m s = Some (Inr (x, s1)) \<and> f x s1 = Some (Inr (y, s'))"
  by (auto simp: bnd_def split: option.splits sum.splits)

lemma assign_nonempty: "assign k r m \<noteq> []"
  by (cases m) auto

lemma compileEntry_stores:
  assumes "compileEntry req ident s = Some (Inr (u, s'))"
  shows "compilationMap s' \<noteq> []"
proof -
  obtain found s2 where "bnd (demand found) (\<lambda>entry.
       (let instructionLines = instructionLinesOf (instruction entry);
            isAbs = (elemAt instructionLines 0 = Some ''!absolute'');
            resultHere = (initialResult entry)\<lparr>isAbsolute := isAbs\<rparr>;
            sortedLines = moveLast ''y '' (moveLast ''leave ''
                            (if isAbs then drop 1 instructionLines else instructionLines))
        in bnd (foldM (processInstruction req entry isAbs) sortedLines resultHere)
             (\<lambda>resultHere. modify (finish entry ident resultHere)))) s2
          = Some (Inr (u, s'))"
    using bnd_InrD [OF assms [unfolded compileEntry_def]] by blast
  then obtain entry s3 where "(let instructionLines = instructionLinesOf (instruction entry);
            isAbs = (elemAt instructionLines 0 = Some ''!absolute'');
            resultHere = (initialResult entry)\<lparr>isAbsolute := isAbs\<rparr>;
            sortedLines = moveLast ''y '' (moveLast ''leave ''
                            (if isAbs then drop 1 instructionLines else instructionLines))
        in bnd (foldM (processInstruction req entry isAbs) sortedLines resultHere)
             (\<lambda>resultHere. modify (finish entry ident resultHere))) s3
          = Some (Inr (u, s'))"
    using bnd_InrD by fastforce
  then obtain r s4 where "modify (finish entry ident r) s4 = Some (Inr (u, s'))"
    unfolding Let_def using bnd_InrD by fastforce
  then have "s' = finish entry ident r s4" by (simp add: modify_def)
  then show ?thesis by (simp add: finish_def assign_nonempty)
qed

lemma requestBody_stores:
  assumes "requestBody req ident s = Some (Inr (u, s'))"
  shows "compilationMap s' \<noteq> []"
proof -
  obtain compiled s1 where l: "lookupCompiled ident s = Some (Inr (compiled, s1))"
    and r1: "(if compiled \<noteq> None then ret () else compileEntry req ident) s1
               = Some (Inr (u, s'))"
    using bnd_InrD [OF assms [unfolded requestBody_def]] by blast
  have s1: "s1 = s" and c: "compiled = map_of (compilationMap s) (keyOf ident)"
    using l by (auto simp: lookupCompiled_def gets_def)
  show ?thesis
  proof (cases "compiled = None")
    case False
    then have "s' = s" using r1 s1 by (simp add: ret_def)
    then show ?thesis using False c by auto
  next
    case True
    then show ?thesis using r1 compileEntry_stores by simp
  qed
qed

lemma hasRecords_processAll: "keeps False hasRecords (processAll depth k)"
  by (rule keeps_processAll)
     (simp_all add: rewriteStable_def rewriteMap_def hasRecords_def finish_def assign_nonempty)

lemma compile_nonempty:
  assumes "compileScrollData bound entries = Some (Inr rep)" and "entries \<noteq> []"
  shows "compilationResult rep \<noteq> []"
proof -
  let ?s0 = "\<lparr>compilationMap = [], entriesToProcess = entries\<rparr>"
  obtain u s' where run: "processAll bound bound ?s0 = Some (Inr (u, s'))"
    and rep: "rep = report (compilationMap s')"
    using compileScrollData_run [OF assms(1)] by blast
  obtain e es where es: "entries = e # es" using assms(2) by (cases entries) auto
  obtain k where k: "bound = Suc k" using run es by (cases bound) auto
  have "bnd (requestForProcessing (Suc k) (Some (name e))) (\<lambda>_. processAll (Suc k) k) ?s0
          = Some (Inr (u, s'))"
    using run es k by simp
  then obtain x s1 where r1: "requestForProcessing (Suc k) (Some (name e)) ?s0 = Some (Inr (x, s1))"
    and r2: "processAll (Suc k) k s1 = Some (Inr (u, s'))"
    using bnd_InrD by fastforce
  have "hasRecords s1" using requestBody_stores r1 by (simp add: hasRecords_def)
  then have "hasRecords s'" using r2 by (rule keepsD [OF hasRecords_processAll])
  then have "set (objectValues (compilationMap s')) \<noteq> {}"
    by (simp add: set_objectValues hasRecords_def)
  then show ?thesis using rep by (auto simp: report_def Let_def)
qed

text \<open>
  Claim C5: for a compilation pass over entries that are not empty, the report's total
  extent \<^verbatim>\<open>maxHeight\<close> is the maximum of \<open>enterAt + duration\<close> over the compiled
  records, minus 100. The report holds a record at least; where every sum is a number (not
  NaN), one record's sum is at least every other and \<^verbatim>\<open>maxHeight\<close> is that sum minus 100;
  where a sum is NaN, \<^verbatim>\<open>Math.max\<close> and with it \<^verbatim>\<open>maxHeight\<close> are NaN.
\<close>

theorem C5_total_extent:
  assumes "compileScrollData bound entries = Some (Inr rep)" and "entries \<noteq> []"
  shows "compilationResult rep \<noteq> []
         \<and> ((\<forall>c \<in> set (compilationResult rep). enterAt c + duration c \<noteq> NaN) \<longrightarrow>
              (\<exists>c \<in> set (compilationResult rep).
                 maxHeight rep = enterAt c + duration c - Num 100
                 \<and> (\<forall>d \<in> set (compilationResult rep).
                       enterAt d + duration d \<le> enterAt c + duration c)))
         \<and> ((\<exists>c \<in> set (compilationResult rep). enterAt c + duration c = NaN) \<longrightarrow>
              maxHeight rep = NaN)"
proof -
  define ends where "ends = map (\<lambda>e. enterAt e + duration e) (compilationResult rep)"
  obtain u s' where "processAll bound bound \<lparr>compilationMap = [], entriesToProcess = entries\<rparr>
      = Some (Inr (u, s'))" and rep: "rep = report (compilationMap s')"
    using compileScrollData_run [OF assms(1)] by blast
  have mh: "maxHeight rep = mathMaxAll ends - Num 100"
    using rep by (simp add: report_def Let_def ends_def)
  have ne: "compilationResult rep \<noteq> []" by (rule compile_nonempty [OF assms])
  then have ne': "ends \<noteq> []" by (simp add: ends_def)
  have a: "\<exists>c \<in> set (compilationResult rep).
                 maxHeight rep = enterAt c + duration c - Num 100
                 \<and> (\<forall>d \<in> set (compilationResult rep).
                       enterAt d + duration d \<le> enterAt c + duration c)"
    if "\<forall>c \<in> set (compilationResult rep). enterAt c + duration c \<noteq> NaN"
  proof -
    have "\<forall>x \<in> set ends. x \<noteq> NaN" using that by (auto simp: ends_def)
    then have g: "mathMaxAll ends \<in> set ends" "\<forall>x \<in> set ends. x \<le> mathMaxAll ends"
      using mathMaxAll_greatest [OF ne'] by auto
    then obtain c where c: "c \<in> set (compilationResult rep)"
      "mathMaxAll ends = enterAt c + duration c"
      by (auto simp: ends_def)
    have "\<forall>d \<in> set (compilationResult rep). enterAt d + duration d \<le> enterAt c + duration c"
      using g(2) c(2) by (auto simp: ends_def)
    then show ?thesis using c mh by auto
  qed
  have b: "maxHeight rep = NaN"
    if "\<exists>c \<in> set (compilationResult rep). enterAt c + duration c = NaN"
  proof -
    have "NaN \<in> set ends" using that by (force simp: ends_def)
    then show ?thesis using mh mathMaxAll_NaN by (simp add: minus_num_def)
  qed
  show ?thesis using ne a b by blast
qed

theorem C5_total_extent_witness:
  "\<exists>rep. compileScrollData 3
       [\<lparr>element = 0, instruction = ''enter with-exit b; duration 200'', name = ''a''\<rparr>,
        \<lparr>element = 1, instruction = ''enter 50; duration 100;'', name = ''b''\<rparr>] = Some (Inr rep)
     \<and> map (\<lambda>c. enterAt c + duration c) (compilationResult rep) = [Num 150, Num 350]
     \<and> maxHeight rep = Num 250
     \<and> (\<exists>c \<in> set (compilationResult rep).
           maxHeight rep = enterAt c + duration c - Num 100
           \<and> list_all (\<lambda>d. enterAt d + duration d \<le> enterAt c + duration c)
                (compilationResult rep))"
proof -
  let ?es = "[\<lparr>element = 0, instruction = ''enter with-exit b; duration 200'', name = ''a''\<rparr>,
        \<lparr>element = 1, instruction = ''enter 50; duration 100;'', name = ''b''\<rparr>]"
  have "map_option (map_sum id
          (\<lambda>rep. (map (\<lambda>c. enterAt c + duration c) (compilationResult rep), maxHeight rep)))
          (compileScrollData 3 ?es) = Some (Inr ([Num 150, Num 350], Num 250))"
    by code_simp
  then obtain rep where rep: "compileScrollData 3 ?es = Some (Inr rep)"
    and v: "map (\<lambda>c. enterAt c + duration c) (compilationResult rep) = [Num 150, Num 350]"
    "maxHeight rep = Num 250"
    by (cases "compileScrollData 3 ?es") (auto simp: map_sum_def split: sum.splits)
  have ne: "?es \<noteq> []" by simp
  have nn: "\<forall>c \<in> set (compilationResult rep). enterAt c + duration c \<noteq> NaN"
  proof
    fix c assume "c \<in> set (compilationResult rep)"
    then have "enterAt c + duration c \<in> set (map (\<lambda>c. enterAt c + duration c) (compilationResult rep))"
      by simp
    then show "enterAt c + duration c \<noteq> NaN" unfolding v by auto
  qed
  show ?thesis
    using C5_total_extent [OF rep ne] nn rep v by (auto simp: list_all_iff)
qed

section \<open>Reference cycles\<close>

lemma cyclic_step:
  assumes "req (Some other) \<lparr>compilationMap = [], entriesToProcess = cyclicEntries\<rparr> = None"
    and "find (\<lambda>e. Some (name e) = Some k) cyclicEntries
           = Some \<lparr>element = el, instruction = ''enter like '' @ other, name = k\<rparr>"
    and "instructionLinesOf (''enter like '' @ other) = [''enter like '' @ other]"
    and "drop 1 (splitSpaces (trim (''enter like '' @ other))) = [''like'', other]"
    and "firstWord (''enter like '' @ other) = ''enter''"
  shows "requestBody req (Some k) \<lparr>compilationMap = [], entriesToProcess = cyclicEntries\<rparr> = None"
  using assms
  by (simp add: requestBody_def compileEntry_def bnd_def lookupCompiled_def gets_def keyOf_def
      demand_def ret_def Let_def elemAt_def moveLast_def startsWith_def processInstruction_def
      directives_def resolveDataSource_def)

lemma cyclic_diverges:
  "requestForProcessing n (Some ''a'') \<lparr>compilationMap = [], entriesToProcess = cyclicEntries\<rparr> = None
   \<and> requestForProcessing n (Some ''b'') \<lparr>compilationMap = [], entriesToProcess = cyclicEntries\<rparr> = None"
proof (induction n)
  case 0
  show ?case by simp
next
  case (Suc n)
  have a: "requestBody (requestForProcessing n) (Some ''a'')
             \<lparr>compilationMap = [], entriesToProcess = cyclicEntries\<rparr> = None"
    by (rule cyclic_step [where other = "''b''" and el = 0])
       (use Suc in \<open>simp_all add: cyclicEntries_def\<close>, code_simp+)
  have b: "requestBody (requestForProcessing n) (Some ''b'')
             \<lparr>compilationMap = [], entriesToProcess = cyclicEntries\<rparr> = None"
    by (rule cyclic_step [where other = "''a''" and el = 1])
       (use Suc in \<open>simp_all add: cyclicEntries_def\<close>, code_simp+)
  show ?case using a b by simp
qed


subsection \<open>The source against the compiler that detects cycles\<close>

named_theorems refines_intro

lemma refines_refl [refines_intro]: "refines X m m"
  by (simp add: refines_def)

lemma refines_throw: "e \<in> X \<Longrightarrow> refines X (throw e) m"
  by (auto simp: refines_def throw_def)

lemma refines_bnd [refines_intro]:
  assumes m: "refines X m1 m2" and f: "\<And>x. refines X (f1 x) (f2 x)"
  shows "refines X (bnd m1 f1) (bnd m2 f2)"
  unfolding refines_def
proof
  fix s
  consider "m1 s = None" | e where "e \<in> X" "m1 s = Some (Inl e)" | "m1 s = m2 s"
    using m [unfolded refines_def, rule_format, of s] by auto
  then show "bnd m1 f1 s = None \<or> (\<exists>e \<in> X. bnd m1 f1 s = Some (Inl e)) \<or> bnd m1 f1 s = bnd m2 f2 s"
  proof cases
    case 1
    then show ?thesis by (simp add: bnd_def)
  next
    case 2
    then show ?thesis by (auto simp: bnd_def)
  next
    case 3
    show ?thesis
    proof (cases "m2 s")
      case None
      then show ?thesis using 3 by (simp add: bnd_def)
    next
      case (Some r)
      show ?thesis
      proof (cases r)
        case (Inl e)
        then show ?thesis using 3 Some by (simp add: bnd_def)
      next
        case (Inr p)
        obtain x s1 where p: "p = (x, s1)" by (cases p)
        have "f1 x s1 = None \<or> (\<exists>e \<in> X. f1 x s1 = Some (Inl e)) \<or> f1 x s1 = f2 x s1"
          using f [of x, unfolded refines_def, rule_format, of s1] by auto
        then show ?thesis using 3 Some Inr p by (simp add: bnd_def)
      qed
    qed
  qed
qed

lemma refines_if [refines_intro]:
  "(c \<Longrightarrow> refines X a1 a2) \<Longrightarrow> (\<not> c \<Longrightarrow> refines X b1 b2) \<Longrightarrow>
   refines X (if c then a1 else b1) (if c then a2 else b2)"
  by simp

lemma refines_case_option [refines_intro]:
  "refines X a1 a2 \<Longrightarrow> (\<And>y. refines X (f1 y) (f2 y)) \<Longrightarrow>
   refines X (case x of None \<Rightarrow> a1 | Some y \<Rightarrow> f1 y) (case x of None \<Rightarrow> a2 | Some y \<Rightarrow> f2 y)"
  by (cases x) simp_all

lemma refines_case_list [refines_intro]:
  "refines X a1 a2 \<Longrightarrow> (\<And>y ys. refines X (f1 y ys) (f2 y ys)) \<Longrightarrow>
   refines X (case x of [] \<Rightarrow> a1 | y # ys \<Rightarrow> f1 y ys) (case x of [] \<Rightarrow> a2 | y # ys \<Rightarrow> f2 y ys)"
  by (cases x) simp_all

lemma refines_case_prod [refines_intro]:
  "(\<And>a b. refines X (f1 a b) (f2 a b)) \<Longrightarrow>
   refines X (case p of (a, b) \<Rightarrow> f1 a b) (case p of (a, b) \<Rightarrow> f2 a b)"
  by (cases p) simp

lemma refines_Let [refines_intro]:
  "refines X (f1 x) (f2 x) \<Longrightarrow> refines X (Let x f1) (Let x f2)"
  by simp

lemma refines_foldM [refines_intro]:
  assumes "\<And>a x. refines X (f1 a x) (f2 a x)"
  shows "refines X (foldM f1 xs acc) (foldM f2 xs acc)"
proof (induction xs arbitrary: acc)
  case Nil
  show ?case by (simp add: refines_refl)
next
  case (Cons x xs)
  show ?case by (simp, rule refines_bnd) (use Cons assms in auto)
qed

lemma refines_checkAllowReferent:
  assumes "\<And>i. refines X (req1 i) (req2 i)"
  shows "refines X (checkAllowReferent req1 keyword dataParameter)
           (checkAllowReferent req2 keyword dataParameter)"
  unfolding checkAllowReferent_def by (intro refines_intro assms)

lemma refines_referentValue:
  assumes "\<And>i. refines X (req1 i) (req2 i)"
  shows "refines X (referentValue req1 keyword dataParameter referent f v)
           (referentValue req2 keyword dataParameter referent f v)"
  unfolding referentValue_def by (intro refines_intro refines_checkAllowReferent assms)

lemma refines_resolveDataValue:
  assumes "\<And>i. refines X (req1 i) (req2 i)"
  shows "refines X (resolveDataValue req1 keyword dataParameter)
           (resolveDataValue req2 keyword dataParameter)"
  unfolding resolveDataValue_def by (intro refines_intro refines_referentValue assms)

lemma refines_resolveDataSource:
  assumes "\<And>i. refines X (req1 i) (req2 i)"
  shows "refines X (resolveDataSource req1 dataParameter) (resolveDataSource req2 dataParameter)"
  unfolding resolveDataSource_def by (intro refines_intro assms)

lemma refines_substituteLike:
  assumes "\<And>i. refines X (req1 i) (req2 i)"
  shows "refines X (substituteLike req1 ax holder prePipe r) (substituteLike req2 ax holder prePipe r)"
  unfolding substituteLike_def by (intro refines_intro assms)

lemma refines_pipeEasing:
  assumes "\<And>i. refines X (req1 i) (req2 i)"
  shows "refines X (pipeEasing req1 ax dataParameter pipeIndex)
           (pipeEasing req2 ax dataParameter pipeIndex)"
  unfolding pipeEasing_def by (intro refines_intro assms)

lemma refines_uniformForm:
  assumes "\<And>i. refines X (req1 i) (req2 i)"
  shows "refines X (uniformForm req1 ax holder dataParameter r)
           (uniformForm req2 ax holder dataParameter r)"
  unfolding uniformForm_def
  by (intro refines_intro refines_substituteLike refines_pipeEasing assms)

lemma refines_segmentTime:
  assumes "\<And>i. refines X (req1 i) (req2 i)"
  shows "refines X (segmentTime req1 r latestTime segment) (segmentTime req2 r latestTime segment)"
  unfolding segmentTime_def by (intro refines_intro assms)

lemma refines_segmentPosition:
  assumes "\<And>i. refines X (req1 i) (req2 i)"
  shows "refines X (segmentPosition req1 ax segment k current)
           (segmentPosition req2 ax segment k current)"
  unfolding segmentPosition_def by (intro refines_intro assms)

lemma refines_segmentEase:
  assumes "\<And>i. refines X (req1 i) (req2 i)"
  shows "refines X (segmentEase req1 segment) (segmentEase req2 segment)"
  unfolding segmentEase_def by (intro refines_intro assms)

lemma refines_compileSegment:
  assumes "\<And>i. refines X (req1 i) (req2 i)"
  shows "refines X (compileSegment req1 ax r acc segment) (compileSegment req2 ax r acc segment)"
  unfolding compileSegment_def
  by (intro refines_intro refines_segmentTime refines_segmentPosition refines_segmentEase assms)

lemma refines_customForm:
  assumes "\<And>i. refines X (req1 i) (req2 i)"
  shows "refines X (customForm req1 ax dataParameter r) (customForm req2 ax dataParameter r)"
  unfolding customForm_def by (intro refines_intro refines_compileSegment assms)

lemma refines_processAxis:
  assumes "\<And>i. refines X (req1 i) (req2 i)"
  shows "refines X (processAxis req1 ax instructionText ownParameter foundDataSource r)
           (processAxis req2 ax instructionText ownParameter foundDataSource r)"
  unfolding processAxis_def
  by (intro refines_intro refines_uniformForm refines_customForm assms)

lemma refines_processInstruction:
  assumes "\<And>i. refines X (req1 i) (req2 i)"
  shows "refines X (processInstruction req1 entry isAbs r instructionText)
           (processInstruction req2 entry isAbs r instructionText)"
  unfolding processInstruction_def
  by (intro refines_intro refines_resolveDataSource refines_resolveDataValue refines_processAxis
      assms)

lemma refines_compileEntry:
  assumes "\<And>i. refines X (req1 i) (req2 i)"
  shows "refines X (compileEntry req1 ident) (compileEntry req2 ident)"
  unfolding compileEntry_def
  by (intro refines_intro refines_processInstruction assms)

lemma requestGuarded_refines:
  "refines {CyclicReference} (requestGuarded n inProgress ident) (requestForProcessing n ident)"
proof (induction n arbitrary: inProgress ident)
  case 0
  show ?case by (simp add: refines_def)
next
  case (Suc n)
  have step: "refines {CyclicReference}
          (if requestedInProgress inProgress ident then throw CyclicReference
           else compileEntry (requestGuarded n (entered ident inProgress)) ident)
          (compileEntry (requestForProcessing n) ident)"
    by (cases "requestedInProgress inProgress ident")
       (simp_all add: refines_throw refines_compileEntry Suc)
  show ?case
    unfolding requestGuarded.simps requestForProcessing.simps requestBody_def
    by (intro refines_bnd refines_refl refines_if step)
qed

lemma processAllGuarded_refines:
  "refines {CyclicReference} (processAllGuarded depth k) (processAll depth k)"
proof (induction k)
  case 0
  show ?case by (simp add: refines_def)
next
  case (Suc k)
  show ?case
    unfolding refines_def
  proof
    fix s
    show "processAllGuarded depth (Suc k) s = None
          \<or> (\<exists>e \<in> {CyclicReference}. processAllGuarded depth (Suc k) s = Some (Inl e))
          \<or> processAllGuarded depth (Suc k) s = processAll depth (Suc k) s"
    proof (cases "entriesToProcess s")
      case Nil
      then show ?thesis by simp
    next
      case (Cons e es)
      have "refines {CyclicReference}
              (bnd (requestGuarded depth [] (Some (name e))) (\<lambda>_. processAllGuarded depth k))
              (bnd (requestForProcessing depth (Some (name e))) (\<lambda>_. processAll depth k))"
        by (intro refines_bnd requestGuarded_refines Suc)
      then show ?thesis using Cons unfolding refines_def by simp
    qed
  qed
qed

lemma compileGuarded_refines:
  assumes "compileGuarded bound entries = Some r" and "r \<noteq> Inl CyclicReference"
  shows "compileScrollData bound entries = Some r"
proof -
  let ?s0 = "\<lparr>compilationMap = [], entriesToProcess = entries\<rparr>"
  have d: "processAllGuarded bound bound ?s0 = None
        \<or> processAllGuarded bound bound ?s0 = Some (Inl CyclicReference)
        \<or> processAllGuarded bound bound ?s0 = processAll bound bound ?s0"
    using processAllGuarded_refines [of bound bound, unfolded refines_def, rule_format, of ?s0]
    by auto
  show ?thesis
  proof (cases "processAllGuarded bound bound ?s0")
    case None
    then show ?thesis using assms(1) by (simp add: compileGuarded_def)
  next
    case (Some q)
    show ?thesis
    proof (cases q)
      case (Inl e)
      then have "r = Inl e" using assms(1) Some by (simp add: compileGuarded_def)
      then have "processAll bound bound ?s0 = Some (Inl e)"
        using d Some Inl assms(2) by auto
      then show ?thesis using \<open>r = Inl e\<close> by (simp add: compileScrollData_def)
    next
      case (Inr p)
      obtain u s' where p: "p = (u, s')" by (cases p)
      have "r = Inr (report (compilationMap s'))"
        using assms(1) Some Inr p by (simp add: compileGuarded_def)
      moreover have "processAll bound bound ?s0 = Some (Inr (u, s'))"
        using d Some Inr p by auto
      ultimately show ?thesis by (simp add: compileScrollData_def)
    qed
  qed
qed

subsection \<open>The bound on the depth of the recursion\<close>

lemma refines_requestBody:
  assumes "\<And>i. refines X (req1 i) (req2 i)"
  shows "refines X (requestBody req1 ident) (requestBody req2 ident)"
  unfolding requestBody_def
  by (intro refines_bnd refines_refl refines_if refines_compileEntry assms)

text \<open>
  A deeper bound changes nothing in a compilation that returned: the bound stands only for
  the depth that the recursion of the source may reach.
\<close>

lemma requestForProcessing_deeper:
  "refines {} (requestForProcessing n ident) (requestForProcessing (Suc n) ident)"
proof (induction n arbitrary: ident)
  case 0
  show ?case by (simp add: refines_def)
next
  case (Suc n)
  have "refines {} (requestBody (requestForProcessing n) ident)
          (requestBody (requestForProcessing (Suc n)) ident)"
    by (rule refines_requestBody) (rule Suc)
  then show ?case by (simp only: requestForProcessing.simps)
qed

lemma refines_trans: "refines {} m1 m2 \<Longrightarrow> refines {} m2 m3 \<Longrightarrow> refines {} m1 m3"
  unfolding refines_def by (metis empty_iff)

lemma requestForProcessing_mono:
  "n \<le> m \<Longrightarrow> refines {} (requestForProcessing n ident) (requestForProcessing m ident)"
proof (induction m)
  case 0
  then show ?case by (simp add: refines_refl)
next
  case (Suc m)
  show ?case
  proof (cases "n = Suc m")
    case True
    then show ?thesis by (simp add: refines_refl)
  next
    case False
    then have "refines {} (requestForProcessing n ident) (requestForProcessing m ident)"
      using Suc by simp
    then show ?thesis using requestForProcessing_deeper refines_trans by blast
  qed
qed

lemma processAll_mono:
  "d \<le> d' \<Longrightarrow> k \<le> k' \<Longrightarrow> refines {} (processAll d k) (processAll d' k')"
proof (induction k arbitrary: k')
  case 0
  show ?case
    unfolding refines_def
  proof
    fix s
    show "processAll d 0 s = None \<or> (\<exists>e \<in> {}. processAll d 0 s = Some (Inl e))
          \<or> processAll d 0 s = processAll d' k' s"
      by (cases k'; cases "entriesToProcess s") simp_all
  qed
next
  case (Suc k)
  obtain j where j: "k' = Suc j" and kj: "k \<le> j" using Suc.prems(2) by (cases k') auto
  show ?case
    unfolding refines_def
  proof
    fix s
    show "processAll d (Suc k) s = None \<or> (\<exists>e \<in> {}. processAll d (Suc k) s = Some (Inl e))
          \<or> processAll d (Suc k) s = processAll d' k' s"
    proof (cases "entriesToProcess s")
      case Nil
      then show ?thesis using j by simp
    next
      case (Cons e es)
      have "refines {}
              (bnd (requestForProcessing d (Some (name e))) (\<lambda>_. processAll d k))
              (bnd (requestForProcessing d' (Some (name e))) (\<lambda>_. processAll d' j))"
        by (intro refines_bnd requestForProcessing_mono Suc.IH Suc.prems(1) kj)
      then show ?thesis using Cons j unfolding refines_def by simp
    qed
  qed
qed

lemma compileScrollData_bound:
  assumes "compileScrollData n entries = Some r" and "n \<le> m"
  shows "compileScrollData m entries = Some r"
proof -
  let ?s0 = "\<lparr>compilationMap = [], entriesToProcess = entries\<rparr>"
  have "processAll n n ?s0 = None \<or> processAll n n ?s0 = processAll m m ?s0"
    using processAll_mono [OF assms(2) assms(2), unfolded refines_def, rule_format, of ?s0]
    by auto
  then show ?thesis
    using assms(1) by (auto simp: compileScrollData_def)
qed

subsection \<open>The compiler that detects cycles always ends\<close>

lemma map_of_rewrite_None:
  "map_of (map (\<lambda>(k', c). if k' = k then (k', f c) else (k', c)) m) x = None
   \<longleftrightarrow> map_of m x = None"
  by (induction m) (auto split: if_splits)

lemma progressInv_rewrite: "rewriteStable (progressInv n inProgress N)"
  by (simp add: rewriteStable_def progressInv_def rewriteMap_def pendingNames_def
      pendingUncompiled_def map_of_rewrite_None)

lemma map_of_assign: "map_of (assign k r m) x = (if x = k then Some r else map_of m x)"
  by (induction m) auto

lemma pendingNames_finish:
  "pendingNames (finish entry (Some k) r s) = pendingNames s - {k}"
  by (auto simp: pendingNames_def finish_def)

lemma progressInv_finish:
  assumes "progressInv n (k # inProgress) N s" and "name entry = k"
  shows "progressInv (Suc n) inProgress N (finish entry (Some k) r s)
         \<and> k \<notin> pendingNames (finish entry (Some k) r s)"
proof -
  have d: "distinct inProgress" "k \<notin> set inProgress" "set inProgress \<subseteq> pendingNames s"
    "card (pendingNames s) < n + Suc (length inProgress)" "pendingNames s \<subseteq> N"
    "pendingUncompiled s"
    using assms(1) by (auto simp: progressInv_def)
  have fin: "finite (pendingNames s)" by (simp add: pendingNames_def)
  have c: "card (pendingNames s - {k}) \<le> card (pendingNames s)"
    using fin by (simp add: card_Diff1_le)
  have u: "pendingUncompiled (finish entry (Some k) r s)"
    using d(6) assms(2) by (auto simp: pendingUncompiled_def finish_def map_of_assign)
  show ?thesis
    using d c u by (auto simp: progressInv_def pendingNames_finish)
qed

lemma distinct_subset_card:
  assumes "distinct xs" "set xs \<subseteq> S" "finite S"
  shows "length xs \<le> card S"
  using assms by (metis card_mono distinct_card)

lemma progressInv_zero: "\<not> progressInv 0 inProgress N s"
proof
  assume a: "progressInv 0 inProgress N s"
  have "finite (pendingNames s)" by (simp add: pendingNames_def)
  moreover have "distinct inProgress" "set inProgress \<subseteq> pendingNames s"
    using a by (simp_all add: progressInv_def)
  ultimately have "length inProgress \<le> card (pendingNames s)"
    using distinct_subset_card [of inProgress "pendingNames s"] by simp
  then show False using a by (simp add: progressInv_def)
qed

lemma find_entry:
  assumes "find (\<lambda>e. Some (name e) = ident) (entriesToProcess s) = Some entry"
  shows "ident = Some (name entry) \<and> name entry \<in> pendingNames s"
proof -
  have "Some (name entry) = ident \<and> entry \<in> set (entriesToProcess s)"
    using assms by (auto simp: find_Some_iff)
  then show ?thesis by (auto simp: pendingNames_def)
qed


lemma requestGuarded_total:
  "progressInv n inProgress N s \<Longrightarrow>
   requestGuarded n inProgress ident s \<noteq> None
   \<and> (\<forall>x s'. requestGuarded n inProgress ident s = Some (Inr (x, s')) \<longrightarrow>
         progressInv n inProgress N s' \<and> (\<forall>k. ident = Some k \<longrightarrow> k \<notin> pendingNames s'))"
proof (induction n arbitrary: inProgress ident s)
  case 0
  then show ?case using progressInv_zero by blast
next
  case (Suc n)
  let ?G = "requestGuarded n (entered ident inProgress)"
  show ?case
  proof (cases "map_of (compilationMap s) (keyOf ident) = None")
    case False
    then have run: "requestGuarded (Suc n) inProgress ident s = Some (Inr ((), s))"
      by (simp add: bnd_def lookupCompiled_def gets_def ret_def)
    have "k \<notin> pendingNames s" if "ident = Some k" for k
      using False that Suc.prems
      by (auto simp: progressInv_def pendingUncompiled_def pendingNames_def keyOf_def)
    then show ?thesis using run Suc.prems by simp
  next
    case True
    show ?thesis
    proof (cases "requestedInProgress inProgress ident")
      case True
      then show ?thesis
        using \<open>map_of (compilationMap s) (keyOf ident) = None\<close>
        by (simp add: bnd_def lookupCompiled_def gets_def throw_def)
    next
      case False
      have run: "requestGuarded (Suc n) inProgress ident s = compileEntry ?G ident s"
        using True False by (simp add: bnd_def lookupCompiled_def gets_def)
      show ?thesis
      proof (cases "find (\<lambda>e. Some (name e) = ident) (entriesToProcess s)")
        case None
        then have "compileEntry ?G ident s = Some (Inl TypeError)"
          by (simp add: compileEntry_def bnd_def gets_def demand_def throw_def)
        then show ?thesis using run by simp
      next
        case (Some entry)
        define k where "k = name entry"
        have id: "ident = Some k" and kin: "k \<in> pendingNames s"
          using find_entry [OF Some] by (simp_all add: k_def)
        have knot: "k \<notin> set inProgress"
          using False id by (simp add: requestedInProgress_def)
        have st: "entered ident inProgress = k # inProgress"
          using id by (simp add: entered_def)
        let ?P = "progressInv n (k # inProgress) N"
        have p: "?P s"
          using Suc.prems kin knot by (auto simp: progressInv_def)
        have g: "keeps True ?P (?G i)" for i
          unfolding keeps_def st using Suc.IH [of "k # inProgress" _ i] by blast
        define isAbs where "isAbs = (elemAt (instructionLinesOf (instruction entry)) 0 = Some ''!absolute'')"
        define sortedLines where "sortedLines = moveLast ''y '' (moveLast ''leave ''
            (if isAbs then drop 1 (instructionLinesOf (instruction entry))
             else instructionLinesOf (instruction entry)))"
        define r0 where "r0 = (initialResult entry)\<lparr>isAbsolute := isAbs\<rparr>"
        have body: "compileEntry ?G ident s
            = bnd (foldM (processInstruction ?G entry isAbs) sortedLines r0)
                (\<lambda>resultHere. modify (finish entry ident resultHere)) s"
          using Some
          by (simp add: compileEntry_def bnd_def gets_def demand_def ret_def Let_def isAbs_def
              sortedLines_def r0_def)
        have f: "keeps True ?P (foldM (processInstruction ?G entry isAbs) sortedLines r0)"
          by (intro keeps_foldM keeps_processInstruction g progressInv_rewrite)
        show ?thesis
        proof (cases "foldM (processInstruction ?G entry isAbs) sortedLines r0 s")
          case None
          then show ?thesis using f p by (auto simp: keeps_def)
        next
          case (Some q)
          show ?thesis
          proof (cases q)
            case (Inl e)
            then show ?thesis using run body Some by (simp add: bnd_def)
          next
            case (Inr pr)
            obtain r s4 where pr: "pr = (r, s4)" by (cases pr)
            have "?P s4" using f p Some Inr pr by (auto simp: keeps_def)
            then have fin: "progressInv (Suc n) inProgress N (finish entry (Some k) r s4)
                \<and> k \<notin> pendingNames (finish entry (Some k) r s4)"
              by (rule progressInv_finish) (simp add: k_def)
            have "requestGuarded (Suc n) inProgress ident s
                    = Some (Inr ((), finish entry (Some k) r s4))"
              using run body Some Inr pr id by (simp add: bnd_def modify_def)
            then show ?thesis using fin id by simp
          qed
        qed
      qed
    qed
  qed
qed


lemma processAllGuarded_total:
  "progressInv depth [] N s \<Longrightarrow> card (pendingNames s) \<le> k \<Longrightarrow>
   processAllGuarded depth k s \<noteq> None"
proof (induction k arbitrary: s N)
  case 0
  have "finite (pendingNames s)" by (simp add: pendingNames_def)
  then have "pendingNames s = {}" using 0 by simp
  then have "entriesToProcess s = []" by (simp add: pendingNames_def)
  then show ?case by simp
next
  case (Suc k)
  show ?case
  proof (cases "entriesToProcess s")
    case Nil
    then show ?thesis by simp
  next
    case (Cons e es)
    have fin: "finite (pendingNames s)" by (simp add: pendingNames_def)
    have ein: "name e \<in> pendingNames s" using Cons by (simp add: pendingNames_def)
    have p: "progressInv depth [] (pendingNames s) s"
      using Suc.prems(1) by (simp add: progressInv_def)
    note t = requestGuarded_total [OF p, of "Some (name e)"]
    show ?thesis
    proof (cases "requestGuarded depth [] (Some (name e)) s")
      case None
      then show ?thesis using t by simp
    next
      case (Some q)
      show ?thesis
      proof (cases q)
        case (Inl err)
        then show ?thesis using Cons Some by (simp add: bnd_def)
      next
        case (Inr pr)
        obtain x s1 where pr: "pr = (x, s1)" by (cases pr)
        have p1: "progressInv depth [] (pendingNames s) s1" and out: "name e \<notin> pendingNames s1"
          using t Some Inr pr by auto
        have "pendingNames s1 \<subseteq> pendingNames s - {name e}"
          using p1 out by (auto simp: progressInv_def)
        then have "card (pendingNames s1) \<le> card (pendingNames s - {name e})"
          using fin by (intro card_mono) auto
        also have "\<dots> < card (pendingNames s)"
          using fin ein by (intro card_Diff1_less)
        finally have "card (pendingNames s1) \<le> k" using Suc.prems(2) by simp
        then have "processAllGuarded depth k s1 \<noteq> None"
          using Suc.IH [OF p1] by simp
        then show ?thesis using Cons Some Inr pr by (simp add: bnd_def)
      qed
    qed
  qed
qed

lemma compileGuarded_total: "compileGuarded (Suc (length entries)) entries \<noteq> None"
proof -
  let ?s0 = "\<lparr>compilationMap = [], entriesToProcess = entries\<rparr>"
  have c: "card (pendingNames ?s0) \<le> length entries"
    by (simp add: pendingNames_def card_image_le [THEN le_trans] card_length)
  then have "progressInv (Suc (length entries)) [] UNIV ?s0"
    by (simp add: progressInv_def pendingUncompiled_def)
  then have "processAllGuarded (Suc (length entries)) (Suc (length entries)) ?s0 \<noteq> None"
    using c by (intro processAllGuarded_total) auto
  then show ?thesis
    by (auto simp: compileGuarded_def split: option.splits sum.splits)
qed



text \<open>On the two entries that refer to each other the detecting compiler reports the cycle.\<close>

lemma cyclic_is_detected: "compileGuarded 3 cyclicEntries = Some (Inl CyclicReference)"
  by code_simp

end
